theory Spec2Isabelle
  imports Complex_Main "HOL-Library.Word"
begin

unbundle bit_operations_syntax

section \<open>RGB LED strip controller: the colour engine of the 2017 sketch\<close>

text \<open>
  The sketch \<^verbatim>\<open>RGB_LED_Strip_Controller.ino\<close> keeps hue, saturation, brightness and the
  three channels in C \<^verbatim>\<open>float\<close> variables. The development has them twice. In this
  section and in the main loop they are real numbers and every operation is the exact one:
  this is the arithmetic the sketch was designed in, and the properties that do not turn on
  rounding are stated in it. \<open>HSBtoRGB_f32\<close>, \<open>RGBtoHSB_f32\<close> and the key switch
  \<open>handle_key32\<close> further down are the same code in the IEEE 754 binary32 arithmetic of
  the AVR (\<^verbatim>\<open>float\<close> and \<^verbatim>\<open>double\<close> are both 32 bits wide there), every operation rounded
  to the nearest value; what the sketch really computes is read off those. The integers of the
  sketch keep their AVR widths: \<^verbatim>\<open>unsigned int\<close> is a 16-bit word, \<^verbatim>\<open>unsigned long\<close> a
  32-bit word.
\<close>

definition MAX_RGB :: real where
  "MAX_RGB = 255"

definition MIN_RGB :: real where
  "MIN_RGB = 1"

definition MIN_BRIGHT :: real where
  "MIN_BRIGHT = MIN_RGB / 3 / MAX_RGB"

definition MIN_STEP_TIME :: "32 word" where
  "MIN_STEP_TIME = 100"

definition MAX_STEP_TIME :: "32 word" where
  "MAX_STEP_TIME = 10000"

definition HUE_STEPS :: int where
  "HUE_STEPS = 400"

definition BRIGHT_STEPS :: int where
  "BRIGHT_STEPS = 60"

definition RGB_STEPS :: int where
  "RGB_STEPS = 60"

definition SAT_STEPS :: int where
  "SAT_STEPS = 50"

text \<open>
  \<^verbatim>\<open>void HSBtoRGB(float hue, float sat, float & bright, float & red, float & green,
  float & blue)\<close>. The three reference parameters written by the function are its result, in
  the order (bright, red, green, blue). Each \<^verbatim>\<open>let\<close> line is one assignment of the source,
  in the source's order.
\<close>

definition HSBtoRGB :: "real \<Rightarrow> real \<Rightarrow> real \<Rightarrow> real \<times> real \<times> real \<times> real" where
  "HSBtoRGB hue sat bright =
    (let hue = (if hue < 0 then 0 else hue);
         hue = (if hue > 1 then 1 else hue);
         hue = hue * 3;
         red = (if hue \<ge> 0 \<and> hue \<le> 1 then MAX_RGB / 1 * (hue - 0)
                else if hue > 1 \<and> hue \<le> 2 then MAX_RGB - MAX_RGB / 1 * (hue - 1)
                else 0);
         green = (if hue \<ge> 1 \<and> hue \<le> 2 then MAX_RGB / 1 * (hue - 1)
                  else if hue > 2 \<and> hue \<le> 3 then MAX_RGB - MAX_RGB / 1 * (hue - 2)
                  else 0);
         blue = (if hue \<ge> 2 \<and> hue \<le> 3 then MAX_RGB / 1 * (hue - 2)
                 else if hue \<ge> 0 \<and> hue \<le> 1 then MAX_RGB - MAX_RGB / 1 * (hue - 0)
                 else 0);
         red = (1 - sat) * MAX_RGB / 3 + sat * red;
         green = (1 - sat) * MAX_RGB / 3 + sat * green;
         blue = (1 - sat) * MAX_RGB / 3 + sat * blue;
         bright = (if bright > MAX_RGB / max red (max green blue) / 3
                   then MAX_RGB / max red (max green blue) / 3 else bright);
         red = red * (bright * 3);
         green = green * (bright * 3);
         blue = blue * (bright * 3)
     in (bright, red, green, blue))"

text \<open>
  \<^verbatim>\<open>void RGBtoHSB(float & hue, float & sat, float & bright, float red, float green,
  float blue)\<close>. The result is (hue, sat, bright) as left in the caller's variables. The three
  tests on the largest channel are separate \<^verbatim>\<open>if\<close> statements in the source, so a later one
  overwrites the hue of an earlier one. When \<^verbatim>\<open>sat\<close> is zero the source divides the local
  channel copies by zero; those locals are read only under the guard \<^verbatim>\<open>sat > 0.0\<close>, so
  the value the division has in HOL never reaches the result.
\<close>

definition RGBtoHSB ::
  "real \<Rightarrow> real \<Rightarrow> real \<Rightarrow> real \<Rightarrow> real \<Rightarrow> real \<Rightarrow> real \<times> real \<times> real" where
  "RGBtoHSB hue sat bright red green blue =
    (let bright = (red + green + blue) / MAX_RGB / 3;
         sum = red + green + blue;
         (red, green, blue) =
           (if sum > 0
            then (red * (MAX_RGB / sum), green * (MAX_RGB / sum), blue * (MAX_RGB / sum))
            else (red, green, blue));
         sat = (MAX_RGB / 3 - min red (min green blue)) / (MAX_RGB / 3);
         (red, green, blue) =
           (if red \<le> min green blue
            then (0,
                  (green - MAX_RGB / 3 + MAX_RGB / 3 * sat) / sat,
                  (blue - MAX_RGB / 3 + MAX_RGB / 3 * sat) / sat)
            else if green \<le> min red blue
            then ((red - MAX_RGB / 3 + MAX_RGB / 3 * sat) / sat,
                  0,
                  (blue - MAX_RGB / 3 + MAX_RGB / 3 * sat) / sat)
            else if blue \<le> min green red
            then ((red - MAX_RGB / 3 + MAX_RGB / 3 * sat) / sat,
                  (green - MAX_RGB / 3 + MAX_RGB / 3 * sat) / sat,
                  0)
            else (red, green, blue));
         hue = (if sat > 0 \<and> bright > 0
                then (let hue = (if red \<ge> max green blue
                                 then (if blue > green then red / MAX_RGB
                                       else 2 - red / MAX_RGB)
                                 else hue);
                          hue = (if green \<ge> max red blue
                                 then (if red > blue then 1 + green / MAX_RGB
                                       else 3 - green / MAX_RGB)
                                 else hue);
                          hue = (if blue \<ge> max green red
                                 then (if green > red then 2 + blue / MAX_RGB
                                       else 0 + red / MAX_RGB)
                                 else hue)
                      in hue / 3)
                else hue)
     in (hue, sat, bright))"

subsection \<open>The stages of the conversion, named\<close>

text \<open>
  The assignments of \<^verbatim>\<open>HSBtoRGB\<close> taken one group at a time: the validated hue times
  three, the three ramps, the blend towards the neutral point and the bound on brightness.
  \<open>HSBtoRGB_stages\<close> below shows that the function is their composition.
\<close>

definition hue_phase :: "real \<Rightarrow> real" where
  "hue_phase hue = (let hue = (if hue < 0 then 0 else hue);
                        hue = (if hue > 1 then 1 else hue) in hue * 3)"

definition red_ramp :: "real \<Rightarrow> real" where
  "red_ramp hue = (if hue \<ge> 0 \<and> hue \<le> 1 then MAX_RGB / 1 * (hue - 0)
                else if hue > 1 \<and> hue \<le> 2 then MAX_RGB - MAX_RGB / 1 * (hue - 1)
                else 0)"

definition green_ramp :: "real \<Rightarrow> real" where
  "green_ramp hue = (if hue \<ge> 1 \<and> hue \<le> 2 then MAX_RGB / 1 * (hue - 1)
                  else if hue > 2 \<and> hue \<le> 3 then MAX_RGB - MAX_RGB / 1 * (hue - 2)
                  else 0)"

definition blue_ramp :: "real \<Rightarrow> real" where
  "blue_ramp hue = (if hue \<ge> 2 \<and> hue \<le> 3 then MAX_RGB / 1 * (hue - 2)
                 else if hue \<ge> 0 \<and> hue \<le> 1 then MAX_RGB - MAX_RGB / 1 * (hue - 0)
                 else 0)"

definition desaturate :: "real \<Rightarrow> real \<Rightarrow> real" where
  "desaturate sat x = (1 - sat) * MAX_RGB / 3 + sat * x"

definition bright_cap :: "real \<Rightarrow> real \<Rightarrow> real \<Rightarrow> real" where
  "bright_cap red green blue = MAX_RGB / max red (max green blue) / 3"

text \<open>
  The assignments of \<^verbatim>\<open>RGBtoHSB\<close> in the same way: the channels scaled to the sum 255,
  the saturation read off the smallest channel, the smallest channel removed from the other
  two, and the three tests that turn the largest channel into a hue.
  \<open>RGBtoHSB_stages\<close> below shows that the function is their composition.
\<close>

definition normalise :: "real \<Rightarrow> real \<Rightarrow> real \<Rightarrow> real \<times> real \<times> real" where
  "normalise red green blue =
     (let sum = red + green + blue
      in if sum > 0
         then (red * (MAX_RGB / sum), green * (MAX_RGB / sum), blue * (MAX_RGB / sum))
         else (red, green, blue))"

definition sat_of :: "real \<Rightarrow> real \<Rightarrow> real \<Rightarrow> real" where
  "sat_of red green blue = (MAX_RGB / 3 - min red (min green blue)) / (MAX_RGB / 3)"

definition resaturate :: "real \<Rightarrow> real \<Rightarrow> real \<Rightarrow> real \<Rightarrow> real \<times> real \<times> real" where
  "resaturate sat red green blue =
     (if red \<le> min green blue
      then (0,
            (green - MAX_RGB / 3 + MAX_RGB / 3 * sat) / sat,
            (blue - MAX_RGB / 3 + MAX_RGB / 3 * sat) / sat)
      else if green \<le> min red blue
      then ((red - MAX_RGB / 3 + MAX_RGB / 3 * sat) / sat,
            0,
            (blue - MAX_RGB / 3 + MAX_RGB / 3 * sat) / sat)
      else if blue \<le> min green red
      then ((red - MAX_RGB / 3 + MAX_RGB / 3 * sat) / sat,
            (green - MAX_RGB / 3 + MAX_RGB / 3 * sat) / sat,
            0)
      else (red, green, blue))"

definition hue_of :: "real \<Rightarrow> real \<Rightarrow> real \<Rightarrow> real \<Rightarrow> real" where
  "hue_of hue red green blue =
     (let hue = (if red \<ge> max green blue
                 then (if blue > green then red / MAX_RGB else 2 - red / MAX_RGB)
                 else hue);
          hue = (if green \<ge> max red blue
                 then (if red > blue then 1 + green / MAX_RGB else 3 - green / MAX_RGB)
                 else hue);
          hue = (if blue \<ge> max green red
                 then (if green > red then 2 + blue / MAX_RGB else 0 + red / MAX_RGB)
                 else hue)
      in hue / 3)"

text \<open>The number of output channels that are exactly at the floor value 0.\<close>

definition channels_at_floor :: "real \<times> real \<times> real \<times> real \<Rightarrow> nat" where
  "channels_at_floor out =
     (case out of (bright, red, green, blue) \<Rightarrow> length (filter (\<lambda>x. x = 0) [red, green, blue]))"

text \<open>
  The round trip as the sketch performs it on its globals: \<^verbatim>\<open>HSBtoRGB\<close> writes bright, red,
  green and blue, then \<^verbatim>\<open>RGBtoHSB\<close> reads the channels and writes hue, sat and bright.
\<close>

definition roundtrip :: "real \<Rightarrow> real \<Rightarrow> real \<Rightarrow> real \<times> real \<times> real" where
  "roundtrip hue sat bright =
     (case HSBtoRGB hue sat bright of
        (bright', red, green, blue) \<Rightarrow> RGBtoHSB hue sat bright' red green blue)"

section \<open>The 2022 revision (v. 2.1): inverse conversion and PWM interrupts\<close>

text \<open>
  The inverse conversion of the revision divides by quantities that are zero at the neutral
  colours, and its result depends on what C does there. Its \<^verbatim>\<open>float\<close> values are therefore
  reals extended by the special values of IEEE 754: a quotient of zero by zero is NaN, a
  non-zero number over zero is an infinity, every comparison with NaN is false. Rounding is
  still left out, and zero carries no sign (a zero divisor counts as +0).
\<close>

datatype cfloat = Fin real | PInf | NInf | NaN

instantiation cfloat :: "{plus, minus, times, inverse}"
begin

fun plus_cfloat :: "cfloat \<Rightarrow> cfloat \<Rightarrow> cfloat" where
  "plus_cfloat NaN y = NaN"
| "plus_cfloat x NaN = NaN"
| "plus_cfloat (Fin a) (Fin b) = Fin (a + b)"
| "plus_cfloat PInf NInf = NaN"
| "plus_cfloat NInf PInf = NaN"
| "plus_cfloat PInf y = PInf"
| "plus_cfloat NInf y = NInf"
| "plus_cfloat (Fin a) y = y"

fun minus_cfloat :: "cfloat \<Rightarrow> cfloat \<Rightarrow> cfloat" where
  "minus_cfloat NaN y = NaN"
| "minus_cfloat x NaN = NaN"
| "minus_cfloat (Fin a) (Fin b) = Fin (a - b)"
| "minus_cfloat PInf PInf = NaN"
| "minus_cfloat NInf NInf = NaN"
| "minus_cfloat PInf y = PInf"
| "minus_cfloat NInf y = NInf"
| "minus_cfloat (Fin a) PInf = NInf"
| "minus_cfloat (Fin a) NInf = PInf"

fun times_cfloat :: "cfloat \<Rightarrow> cfloat \<Rightarrow> cfloat" where
  "times_cfloat NaN y = NaN"
| "times_cfloat x NaN = NaN"
| "times_cfloat (Fin a) (Fin b) = Fin (a * b)"
| "times_cfloat PInf PInf = PInf"
| "times_cfloat NInf NInf = PInf"
| "times_cfloat PInf NInf = NInf"
| "times_cfloat NInf PInf = NInf"
| "times_cfloat PInf (Fin b) = (if b = 0 then NaN else if b > 0 then PInf else NInf)"
| "times_cfloat NInf (Fin b) = (if b = 0 then NaN else if b > 0 then NInf else PInf)"
| "times_cfloat (Fin a) PInf = (if a = 0 then NaN else if a > 0 then PInf else NInf)"
| "times_cfloat (Fin a) NInf = (if a = 0 then NaN else if a > 0 then NInf else PInf)"

fun divide_cfloat :: "cfloat \<Rightarrow> cfloat \<Rightarrow> cfloat" where
  "divide_cfloat NaN y = NaN"
| "divide_cfloat x NaN = NaN"
| "divide_cfloat (Fin a) (Fin b) =
     (if b \<noteq> 0 then Fin (a / b) else if a = 0 then NaN else if a > 0 then PInf else NInf)"
| "divide_cfloat (Fin a) y = Fin 0"
| "divide_cfloat PInf (Fin b) = (if b \<ge> 0 then PInf else NInf)"
| "divide_cfloat NInf (Fin b) = (if b \<ge> 0 then NInf else PInf)"
| "divide_cfloat x y = NaN"

fun inverse_cfloat :: "cfloat \<Rightarrow> cfloat" where
  "inverse_cfloat NaN = NaN"
| "inverse_cfloat (Fin b) = (if b \<noteq> 0 then Fin (1 / b) else PInf)"
| "inverse_cfloat x = Fin 0"

instance ..

end

text \<open>The comparisons \<^verbatim>\<open><\<close>, \<^verbatim>\<open><=\<close> and \<^verbatim>\<open>==\<close> of C, and Arduino's macro
  \<^verbatim>\<open>min(a,b) ((a)<(b)?(a):(b))\<close>.\<close>

fun flt :: "cfloat \<Rightarrow> cfloat \<Rightarrow> bool" where
  "flt NaN y = False"
| "flt x NaN = False"
| "flt (Fin a) (Fin b) = (a < b)"
| "flt x NInf = False"
| "flt PInf y = False"
| "flt x y = True"

fun feq :: "cfloat \<Rightarrow> cfloat \<Rightarrow> bool" where
  "feq NaN y = False"
| "feq x NaN = False"
| "feq x y = (x = y)"

definition fle :: "cfloat \<Rightarrow> cfloat \<Rightarrow> bool" where
  "fle x y = (flt x y \<or> feq x y)"

definition fmin :: "cfloat \<Rightarrow> cfloat \<Rightarrow> cfloat" where
  "fmin a b = (if flt a b then a else b)"

text \<open>
  \<^verbatim>\<open>void RGBtoHSB(float & hue, float & sat, float & bright, float red, float green,
  float blue)\<close> of v. 2.1, on finite channel values. The result is (hue, sat, bright) as left
  in the caller's variables; the function never assigns \<^verbatim>\<open>bright\<close>. For finite channels one
  of the three tests on the smallest channel holds, so the locals \<^verbatim>\<open>redPure\<close>,
  \<^verbatim>\<open>greenPure\<close>, \<^verbatim>\<open>bluePure\<close> are always assigned; the last \<open>else\<close> below stands for the
  path on which they would not be. In \<^verbatim>\<open>redPure == 0 & greenPure == 0.\<close> both comparisons
  are taken first; \<^verbatim>\<open>greenPure == bluePure == 0.\<close> compares the truth value of the first
  comparison with zero.
\<close>

definition RGBtoHSB_v2 ::
  "cfloat \<Rightarrow> real \<Rightarrow> real \<Rightarrow> real \<Rightarrow> real \<Rightarrow> real \<Rightarrow> cfloat \<times> real \<times> real" where
  "RGBtoHSB_v2 hue sat bright red green blue =
    (let redSat = red; greenSat = green; blueSat = blue;
         (sat, redPure, greenPure, bluePure) =
           (if red \<le> min green blue
            then (let sat = 1 - redSat / MAX_RGB
                  in (sat, Fin 0,
                      Fin (greenSat + 255 * sat - 255) / Fin sat,
                      Fin (blueSat + 255 * sat - 255) / Fin sat))
            else if green \<le> min red blue
            then (let sat = 1 - greenSat / MAX_RGB
                  in (sat, Fin (redSat + 255 * sat - 255) / Fin sat,
                      Fin 0,
                      Fin (blueSat + 255 * sat - 255) / Fin sat))
            else if blue \<le> min red green
            then (let sat = 1 - blueSat / MAX_RGB
                  in (sat, Fin (redSat + 255 * sat - 255) / Fin sat,
                      Fin (greenSat + 255 * sat - 255) / Fin sat,
                      Fin 0))
            else (sat, NaN, NaN, NaN));
         hue = (if feq redPure (Fin 0) \<and> feq greenPure (Fin 0) then Fin 160
                else if \<not> feq greenPure bluePure then Fin 0
                else if \<not> feq bluePure redPure then Fin 96
                else hue);
         hue = (if fle bluePure (fmin redPure greenPure)
                then (if fle (Fin 2) (redPure / greenPure)
                      then Fin (255 * 32) / Fin (255 - 170) / (redPure / greenPure + Fin 1)
                      else if fle (Fin 1) (Fin red / Fin green)
                      then Fin 64 / (redPure / greenPure)
                      else Fin 64 + (Fin 170 - Fin 170 * (redPure / greenPure))
                             / (Fin 256 / Fin 96 * (redPure / greenPure) + Fin 170 / Fin 32))
                else if flt redPure (fmin bluePure greenPure)
                then (if flt (Fin 2) (greenPure / bluePure)
                      then Fin 96 + Fin 255
                             / ((greenPure / bluePure) * Fin 85 / Fin (128 - 96)
                                + Fin (255 - 170) / Fin (128 - 96))
                      else Fin 128 + (Fin 170 - Fin 85 * greenPure / bluePure)
                             / (Fin 170 / Fin (160 - 128)
                                + greenPure / bluePure * Fin (255 - 85) / Fin (160 - 128)))
                else if flt greenPure (fmin redPure bluePure)
                then Fin 160 + Fin (256 - 160) / (Fin 1 + (bluePure / redPure))
                else hue);
         hue = (if feq hue (Fin 0) then Fin (1 / 10) else hue);
         hue = (if fle (Fin 255) hue then Fin (1 / 10) else hue)
     in (hue, sat, bright))"

text \<open>
  The timer registers and counters of v. 2.1. \<^verbatim>\<open>pwmCyclesON\<close> is an \<^verbatim>\<open>int\<close> (its signed
  reading is \<open>sint\<close>); in \<^verbatim>\<open>pwmCounter1 <= pwmCyclesON\<close> C converts it to
  \<^verbatim>\<open>unsigned int\<close>, so the test compares the two 16-bit words as unsigned numbers.
  \<^verbatim>\<open>byte(int(x))\<close> truncates towards zero and keeps the low eight bits.
\<close>

record timers =
  pwmCounter1 :: "16 word"
  pwmCounter2 :: "16 word"
  pwmCyclesON :: "16 word"
  OCR1A :: "16 word"
  OCR1B :: "16 word"
  OCR2A :: "8 word"

definition byte_int :: "real \<Rightarrow> 8 word" where
  "byte_int x = word_of_int (if x \<ge> 0 then \<lfloor>x\<rfloor> else \<lceil>x\<rceil>)"

text \<open>The two interrupt routines; \<open>r\<close>, \<open>g\<close> and \<open>b\<close> are the globals \<^verbatim>\<open>red\<close>,
  \<^verbatim>\<open>green\<close> and \<^verbatim>\<open>blue\<close> at the time of the interrupt.\<close>

definition TIMER1_OVF_vect :: "real \<Rightarrow> real \<Rightarrow> timers \<Rightarrow> timers" where
  "TIMER1_OVF_vect r g st =
     (let st = st\<lparr>pwmCounter1 := pwmCounter1 st + 1\<rparr>;
          st = st\<lparr>pwmCounter1 := pwmCounter1 st AND 0x0007\<rparr>
      in if pwmCounter1 st \<le> pwmCyclesON st
         then st\<lparr>OCR1A := ucast (byte_int r), OCR1B := ucast (byte_int g)\<rparr>
         else st\<lparr>OCR1A := 0, OCR1B := 0\<rparr>)"

definition TIMER2_OVF_vect :: "real \<Rightarrow> timers \<Rightarrow> timers" where
  "TIMER2_OVF_vect b st =
     (let st = st\<lparr>pwmCounter2 := pwmCounter2 st + 1\<rparr>;
          st = st\<lparr>pwmCounter2 := pwmCounter2 st AND 0x0007\<rparr>
      in if pwmCounter2 st \<le> pwmCyclesON st
         then st\<lparr>OCR2A := byte_int b\<rparr>
         else st\<lparr>OCR2A := 0\<rparr>)"

text \<open>
  The timer state after \<^verbatim>\<open>setup()\<close> has read its settings from an EEPROM that was never
  written: every byte there is \<^verbatim>\<open>0xFF\<close>, so \<^verbatim>\<open>pwmCyclesON\<close> is \<open>-1\<close>.
\<close>

definition erased_timers :: timers where
  "erased_timers =
     \<lparr>pwmCounter1 = 0, pwmCounter2 = 0, pwmCyclesON = - 1, OCR1A = 0, OCR1B = 0, OCR2A = 0\<rparr>"

section \<open>The conversions of the 2017 sketch in binary32 arithmetic\<close>

subsection \<open>Rounding to binary32\<close>

text \<open>
  \<open>rne\<close> rounds a real to the nearest integer, a tie to the even one. \<open>ilog2 n x\<close> is
  the binary exponent of a positive \<open>x\<close>, searched for in at most \<open>n\<close> halvings or
  doublings; binary32 has no exponent below \<open>-126\<close> (smaller numbers are subnormal and share
  that exponent) and none above 127, so 130 steps reach every exponent that matters.
  \<open>rnd x\<close> is the multiple of \<open>2 ^ (e - 23)\<close> nearest to \<open>x\<close>, \<open>e\<close> the exponent of
  \<open>x\<close>: the binary32 value nearest to \<open>x\<close>, ties to even, before the test for overflow.
  \<open>round32\<close> applies it to a finite value and gives an infinity when the rounded value is
  beyond the largest binary32 number. The sign of zero is not kept.
\<close>

definition rne :: "real \<Rightarrow> int" where
  "rne x = (let n = \<lfloor>x\<rfloor>; d = x - of_int n
            in if d < 1 / 2 then n else if 1 / 2 < d then n + 1
               else if even n then n else n + 1)"

fun ilog2 :: "nat \<Rightarrow> real \<Rightarrow> int" where
  "ilog2 0 x = 0"
| "ilog2 (Suc n) x = (if 2 \<le> x then ilog2 n (x / 2) + 1
                      else if x < 1 then ilog2 n (2 * x) - 1 else 0)"

definition expo :: "real \<Rightarrow> int" where
  "expo x = max (- 126) (ilog2 130 \<bar>x\<bar>)"

definition pow2 :: "int \<Rightarrow> real" where
  "pow2 k = (if 0 \<le> k then 2 ^ nat k else 1 / 2 ^ nat (- k))"

definition rnd :: "real \<Rightarrow> real" where
  "rnd x = (if x = 0 then 0
            else (let q = pow2 (expo x - 23) in of_int (rne (x / q)) * q))"

definition round32 :: "cfloat \<Rightarrow> cfloat" where
  "round32 x = (case x of
                  Fin a \<Rightarrow> (let r = rnd a
                            in if 2 ^ 128 \<le> r then PInf
                               else if r \<le> - (2 ^ 128) then NInf else Fin r)
                | _ \<Rightarrow> x)"

text \<open>
  A \<^verbatim>\<open>float\<close> of the sketch: a value of \<open>cfloat\<close> that the operations below keep
  rounded. \<open>+\<close>, \<open>-\<close>, \<open>*\<close> and \<open>/\<close> on \<open>float32\<close> are the exact operation followed by
  \<open>round32\<close>; \<open><\<close> and \<open>\<le>\<close> are the comparisons of C, false when an operand is NaN.
  \<open>max32\<close> and \<open>min32\<close> are Arduino's macros \<^verbatim>\<open>max(a,b) ((a)>(b)?(a):(b))\<close> and
  \<^verbatim>\<open>min(a,b) ((a)<(b)?(a):(b))\<close>.
\<close>

datatype float32 = F32 cfloat

abbreviation Val :: "real \<Rightarrow> float32" where
  "Val x \<equiv> F32 (Fin x)"

instantiation float32 :: "{plus, minus, times, inverse, ord}"
begin

fun plus_float32 :: "float32 \<Rightarrow> float32 \<Rightarrow> float32" where
  "plus_float32 (F32 a) (F32 b) = F32 (round32 (a + b))"

fun minus_float32 :: "float32 \<Rightarrow> float32 \<Rightarrow> float32" where
  "minus_float32 (F32 a) (F32 b) = F32 (round32 (a - b))"

fun times_float32 :: "float32 \<Rightarrow> float32 \<Rightarrow> float32" where
  "times_float32 (F32 a) (F32 b) = F32 (round32 (a * b))"

fun divide_float32 :: "float32 \<Rightarrow> float32 \<Rightarrow> float32" where
  "divide_float32 (F32 a) (F32 b) = F32 (round32 (a / b))"

fun inverse_float32 :: "float32 \<Rightarrow> float32" where
  "inverse_float32 (F32 a) = F32 (round32 (inverse a))"

fun less_float32 :: "float32 \<Rightarrow> float32 \<Rightarrow> bool" where
  "less_float32 (F32 a) (F32 b) = flt a b"

fun less_eq_float32 :: "float32 \<Rightarrow> float32 \<Rightarrow> bool" where
  "less_eq_float32 (F32 a) (F32 b) = fle a b"

instance ..

end

definition max32 :: "float32 \<Rightarrow> float32 \<Rightarrow> float32" where
  "max32 a b = (if a > b then a else b)"

definition min32 :: "float32 \<Rightarrow> float32 \<Rightarrow> float32" where
  "min32 a b = (if a < b then a else b)"

definition MAX_RGB32 :: float32 where
  "MAX_RGB32 = Val 255"

definition MIN_RGB32 :: float32 where
  "MIN_RGB32 = Val 1"

definition MIN_BRIGHT32 :: float32 where
  "MIN_BRIGHT32 = MIN_RGB32 / Val 3 / MAX_RGB32"

subsection \<open>The two conversions\<close>

text \<open>
  \<^verbatim>\<open>HSBtoRGB\<close> and \<^verbatim>\<open>RGBtoHSB\<close> of the 2017 sketch once more, line for line as above,
  every operation now the binary32 one. The literals of the source (\<^verbatim>\<open>0.0\<close>, \<^verbatim>\<open>1.0\<close>,
  \<^verbatim>\<open>3.0\<close>, the \<^verbatim>\<open>int\<close> 1 and 2 that C converts) are binary32 numbers as they stand.
\<close>

definition HSBtoRGB_f32 ::
  "float32 \<Rightarrow> float32 \<Rightarrow> float32 \<Rightarrow> float32 \<times> float32 \<times> float32 \<times> float32" where
  "HSBtoRGB_f32 hue sat bright =
    (let hue = (if hue < Val 0 then Val 0 else hue);
         hue = (if hue > Val 1 then Val 1 else hue);
         hue = hue * Val 3;
         red = (if hue \<ge> Val 0 \<and> hue \<le> Val 1 then MAX_RGB32 / Val 1 * (hue - Val 0)
                else if hue > Val 1 \<and> hue \<le> Val 2
                then MAX_RGB32 - MAX_RGB32 / Val 1 * (hue - Val 1)
                else Val 0);
         green = (if hue \<ge> Val 1 \<and> hue \<le> Val 2 then MAX_RGB32 / Val 1 * (hue - Val 1)
                  else if hue > Val 2 \<and> hue \<le> Val 3
                  then MAX_RGB32 - MAX_RGB32 / Val 1 * (hue - Val 2)
                  else Val 0);
         blue = (if hue \<ge> Val 2 \<and> hue \<le> Val 3 then MAX_RGB32 / Val 1 * (hue - Val 2)
                 else if hue \<ge> Val 0 \<and> hue \<le> Val 1
                 then MAX_RGB32 - MAX_RGB32 / Val 1 * (hue - Val 0)
                 else Val 0);
         red = (Val 1 - sat) * MAX_RGB32 / Val 3 + sat * red;
         green = (Val 1 - sat) * MAX_RGB32 / Val 3 + sat * green;
         blue = (Val 1 - sat) * MAX_RGB32 / Val 3 + sat * blue;
         bright = (if bright > MAX_RGB32 / max32 red (max32 green blue) / Val 3
                   then MAX_RGB32 / max32 red (max32 green blue) / Val 3 else bright);
         red = red * (bright * Val 3);
         green = green * (bright * Val 3);
         blue = blue * (bright * Val 3)
     in (bright, red, green, blue))"

definition RGBtoHSB_f32 ::
  "float32 \<Rightarrow> float32 \<Rightarrow> float32 \<Rightarrow> float32 \<Rightarrow> float32 \<Rightarrow> float32
     \<Rightarrow> float32 \<times> float32 \<times> float32" where
  "RGBtoHSB_f32 hue sat bright red green blue =
    (let bright = (red + green + blue) / MAX_RGB32 / Val 3;
         sum = red + green + blue;
         (red, green, blue) =
           (if sum > Val 0
            then (red * (MAX_RGB32 / sum), green * (MAX_RGB32 / sum), blue * (MAX_RGB32 / sum))
            else (red, green, blue));
         sat = (MAX_RGB32 / Val 3 - min32 red (min32 green blue)) / (MAX_RGB32 / Val 3);
         (red, green, blue) =
           (if red \<le> min32 green blue
            then (Val 0,
                  (green - MAX_RGB32 / Val 3 + MAX_RGB32 / Val 3 * sat) / sat,
                  (blue - MAX_RGB32 / Val 3 + MAX_RGB32 / Val 3 * sat) / sat)
            else if green \<le> min32 red blue
            then ((red - MAX_RGB32 / Val 3 + MAX_RGB32 / Val 3 * sat) / sat,
                  Val 0,
                  (blue - MAX_RGB32 / Val 3 + MAX_RGB32 / Val 3 * sat) / sat)
            else if blue \<le> min32 green red
            then ((red - MAX_RGB32 / Val 3 + MAX_RGB32 / Val 3 * sat) / sat,
                  (green - MAX_RGB32 / Val 3 + MAX_RGB32 / Val 3 * sat) / sat,
                  Val 0)
            else (red, green, blue));
         hue = (if sat > Val 0 \<and> bright > Val 0
                then (let hue = (if red \<ge> max32 green blue
                                 then (if blue > green then red / MAX_RGB32
                                       else Val 2 - red / MAX_RGB32)
                                 else hue);
                          hue = (if green \<ge> max32 red blue
                                 then (if red > blue then Val 1 + green / MAX_RGB32
                                       else Val 3 - green / MAX_RGB32)
                                 else hue);
                          hue = (if blue \<ge> max32 green red
                                 then (if green > red then Val 2 + blue / MAX_RGB32
                                       else Val 0 + red / MAX_RGB32)
                                 else hue)
                      in hue / Val 3)
                else hue)
     in (hue, sat, bright))"

text \<open>The round trip on the globals, as \<open>roundtrip\<close> above.\<close>

definition roundtrip32 :: "float32 \<Rightarrow> float32 \<Rightarrow> float32 \<Rightarrow> float32 \<times> float32 \<times> float32" where
  "roundtrip32 hue sat bright =
     (case HSBtoRGB_f32 hue sat bright of
        (bright', red, green, blue) \<Rightarrow> RGBtoHSB_f32 hue sat bright' red green blue)"

subsection \<open>The stages of the binary32 conversions, named\<close>

text \<open>
  The groups of assignments of the two conversions again, as for the exact arithmetic above,
  with the binary32 operations. \<open>HSBtoRGB_f32_stages\<close> and \<open>RGBtoHSB_f32_stages\<close> below
  show that the conversions are their compositions.
\<close>

definition hue_phase32 :: "float32 \<Rightarrow> float32" where
  "hue_phase32 hue = (let hue = (if hue < Val 0 then Val 0 else hue);
                          hue = (if hue > Val 1 then Val 1 else hue) in hue * Val 3)"

definition red_ramp32 :: "float32 \<Rightarrow> float32" where
  "red_ramp32 hue =
     (if hue \<ge> Val 0 \<and> hue \<le> Val 1 then MAX_RGB32 / Val 1 * (hue - Val 0)
      else if hue > Val 1 \<and> hue \<le> Val 2
      then MAX_RGB32 - MAX_RGB32 / Val 1 * (hue - Val 1)
      else Val 0)"

definition green_ramp32 :: "float32 \<Rightarrow> float32" where
  "green_ramp32 hue =
     (if hue \<ge> Val 1 \<and> hue \<le> Val 2 then MAX_RGB32 / Val 1 * (hue - Val 1)
      else if hue > Val 2 \<and> hue \<le> Val 3
      then MAX_RGB32 - MAX_RGB32 / Val 1 * (hue - Val 2)
      else Val 0)"

definition blue_ramp32 :: "float32 \<Rightarrow> float32" where
  "blue_ramp32 hue =
     (if hue \<ge> Val 2 \<and> hue \<le> Val 3 then MAX_RGB32 / Val 1 * (hue - Val 2)
      else if hue \<ge> Val 0 \<and> hue \<le> Val 1
      then MAX_RGB32 - MAX_RGB32 / Val 1 * (hue - Val 0)
      else Val 0)"

definition desaturate32 :: "float32 \<Rightarrow> float32 \<Rightarrow> float32" where
  "desaturate32 sat x = (Val 1 - sat) * MAX_RGB32 / Val 3 + sat * x"

definition bright_cap32 :: "float32 \<Rightarrow> float32 \<Rightarrow> float32 \<Rightarrow> float32" where
  "bright_cap32 red green blue = MAX_RGB32 / max32 red (max32 green blue) / Val 3"

definition normalise32 :: "float32 \<Rightarrow> float32 \<Rightarrow> float32 \<Rightarrow> float32 \<times> float32 \<times> float32" where
  "normalise32 red green blue =
     (let sum = red + green + blue
      in if sum > Val 0
         then (red * (MAX_RGB32 / sum), green * (MAX_RGB32 / sum), blue * (MAX_RGB32 / sum))
         else (red, green, blue))"

definition sat_of32 :: "float32 \<Rightarrow> float32 \<Rightarrow> float32 \<Rightarrow> float32" where
  "sat_of32 red green blue =
     (MAX_RGB32 / Val 3 - min32 red (min32 green blue)) / (MAX_RGB32 / Val 3)"

definition resaturate32 ::
  "float32 \<Rightarrow> float32 \<Rightarrow> float32 \<Rightarrow> float32 \<Rightarrow> float32 \<times> float32 \<times> float32" where
  "resaturate32 sat red green blue =
     (if red \<le> min32 green blue
      then (Val 0,
            (green - MAX_RGB32 / Val 3 + MAX_RGB32 / Val 3 * sat) / sat,
            (blue - MAX_RGB32 / Val 3 + MAX_RGB32 / Val 3 * sat) / sat)
      else if green \<le> min32 red blue
      then ((red - MAX_RGB32 / Val 3 + MAX_RGB32 / Val 3 * sat) / sat,
            Val 0,
            (blue - MAX_RGB32 / Val 3 + MAX_RGB32 / Val 3 * sat) / sat)
      else if blue \<le> min32 green red
      then ((red - MAX_RGB32 / Val 3 + MAX_RGB32 / Val 3 * sat) / sat,
            (green - MAX_RGB32 / Val 3 + MAX_RGB32 / Val 3 * sat) / sat,
            Val 0)
      else (red, green, blue))"

definition hue_of32 :: "float32 \<Rightarrow> float32 \<Rightarrow> float32 \<Rightarrow> float32 \<Rightarrow> float32" where
  "hue_of32 hue red green blue =
     (let hue = (if red \<ge> max32 green blue
                 then (if blue > green then red / MAX_RGB32 else Val 2 - red / MAX_RGB32)
                 else hue);
          hue = (if green \<ge> max32 red blue
                 then (if red > blue then Val 1 + green / MAX_RGB32
                       else Val 3 - green / MAX_RGB32)
                 else hue);
          hue = (if blue \<ge> max32 green red
                 then (if green > red then Val 2 + blue / MAX_RGB32
                       else Val 0 + red / MAX_RGB32)
                 else hue)
      in hue / Val 3)"

section \<open>The main loop of the 2017 sketch\<close>

text \<open>
  The decoded frame as the loop reads it from the IR library: \<^verbatim>\<open>MyDecoder.protocolNum\<close>
  and \<^verbatim>\<open>MyDecoder.value\<close>.
\<close>

record frame =
  protocolNum :: "8 word"
  decoded :: "32 word"

text \<open>
  The globals of the sketch. \<open>blinks\<close> and \<open>fired\<close> are not variables of the sketch: the
  first counts the calls of \<^verbatim>\<open>blink()\<close>, the second lists the key codes that reached the
  \<^verbatim>\<open>switch\<close>, most recent first. The PWM pins written by \<^verbatim>\<open>DisplayRGB()\<close> are left out.
\<close>

record controller =
  hue :: real
  sat :: real
  bright :: real
  hueStepTime :: "32 word"
  hueStepTimer :: "32 word"
  red :: real
  green :: real
  blue :: real
  lastKey :: "16 word"
  repeatCount :: "16 word"
  keyTimer :: "32 word"
  variableHue :: bool
  blinks :: nat
  fired :: "16 word list"

definition INIT :: "16 word" where "INIT = 0x30cf"
definition VAR_HUE :: "16 word" where "VAR_HUE = 0xb04f"
definition NEXT_HUE :: "16 word" where "NEXT_HUE = 0x609f"
definition PREV_HUE :: "16 word" where "PREV_HUE = 0x20df"
definition DESATURATE :: "16 word" where "DESATURATE = 0xa05f"
definition SATURATE :: "16 word" where "SATURATE = 0x50af"
definition PURE :: "16 word" where "PURE = 0x708f"
definition DIM :: "16 word" where "DIM = 0x906f"
definition BRIGHTEN :: "16 word" where "BRIGHTEN = 0x807f"
definition INCR_RED :: "16 word" where "INCR_RED = 0x08f7"
definition INCR_GREEN :: "16 word" where "INCR_GREEN = 0x8877"
definition INCR_BLUE :: "16 word" where "INCR_BLUE = 0x48b7"
definition DECR_RED :: "16 word" where "DECR_RED = 0x28d7"
definition DECR_GREEN :: "16 word" where "DECR_GREEN = 0xa857"
definition DECR_BLUE :: "16 word" where "DECR_BLUE = 0x6897"
definition WARM_WHITE :: "16 word" where "WARM_WHITE = 0x18e7"
definition BRIGHT_WHITE :: "16 word" where "BRIGHT_WHITE = 0x9867"
definition DAYLIGHT :: "16 word" where "DAYLIGHT = 0x58a7"

text \<open>The calls \<^verbatim>\<open>HSBtoRGB(hue, sat, bright, red, green, blue)\<close> and
  \<^verbatim>\<open>RGBtoHSB(hue, sat, bright, red, green, blue)\<close> on the globals, and \<^verbatim>\<open>blink()\<close>.\<close>

definition call_HSBtoRGB :: "controller \<Rightarrow> controller" where
  "call_HSBtoRGB st =
     (case HSBtoRGB (hue st) (sat st) (bright st) of
        (b, r, g, bl) \<Rightarrow> st\<lparr>bright := b, red := r, green := g, blue := bl\<rparr>)"

definition call_RGBtoHSB :: "controller \<Rightarrow> controller" where
  "call_RGBtoHSB st =
     (case RGBtoHSB (hue st) (sat st) (bright st) (red st) (green st) (blue st) of
        (h, s, b) \<Rightarrow> st\<lparr>hue := h, sat := s, bright := b\<rparr>)"

definition blink :: "controller \<Rightarrow> controller" where
  "blink st = st\<lparr>blinks := blinks st + 1\<rparr>"

text \<open>\<^verbatim>\<open>pow(10.0, (log10(1.0 / MAX_RGB) / BRIGHT_STEPS))\<close> and the same with
  \<^verbatim>\<open>RGB_STEPS\<close>.\<close>

definition bright_ratio :: real where
  "bright_ratio = 10 powr (log 10 (1 / MAX_RGB) / real_of_int BRIGHT_STEPS)"

definition rgb_ratio :: real where
  "rgb_ratio = 10 powr (log 10 (1 / MAX_RGB) / real_of_int RGB_STEPS)"

subsection \<open>The cases of the key switch\<close>

definition case_INIT :: "controller \<Rightarrow> controller" where
  "case_INIT st =
     (let st = st\<lparr>hue := 0, sat := 1, bright := 1 / 3\<rparr>;
          st = call_HSBtoRGB st
      in st\<lparr>hueStepTimer := MIN_STEP_TIME\<rparr>)"

definition case_VAR_HUE :: "controller \<Rightarrow> controller" where
  "case_VAR_HUE st =
     (if variableHue st
      then blink (st\<lparr>hueStepTime := hueStepTime st * 2\<rparr>)
      else st\<lparr>variableHue := True\<rparr>)"

text \<open>In \<^verbatim>\<open>case PREV_HUE\<close> the bound \<^verbatim>\<open>1 / HUE_STEPS\<close> divides two \<^verbatim>\<open>int\<close>s.\<close>

definition case_NEXT_HUE :: "controller \<Rightarrow> controller" where
  "case_NEXT_HUE st =
     (let st = (if hue st > 1 \<and> hue st < 2
                then st\<lparr>hue := hue st + 1 / real_of_int HUE_STEPS * 2\<rparr>
                else st\<lparr>hue := hue st + 1 / real_of_int HUE_STEPS\<rparr>);
          st = (if hue st > 1 then st\<lparr>hue := 0\<rparr> else st)
      in call_HSBtoRGB st)"

definition case_PREV_HUE :: "controller \<Rightarrow> controller" where
  "case_PREV_HUE st =
     (let st = (if hue st > 1 \<and> hue st < 2
                then st\<lparr>hue := hue st - 1 / real_of_int HUE_STEPS * 2\<rparr>
                else st\<lparr>hue := hue st - 1 / real_of_int HUE_STEPS\<rparr>);
          st = (if hue st < real_of_int (1 div HUE_STEPS) then st\<lparr>hue := 1\<rparr> else st)
      in call_HSBtoRGB st)"

definition case_DESATURATE :: "controller \<Rightarrow> controller" where
  "case_DESATURATE st =
     (let st = st\<lparr>sat := sat st - 1 / real_of_int SAT_STEPS\<rparr>;
          st = (if sat st < 0 then blink (st\<lparr>sat := 0\<rparr>) else st)
      in call_HSBtoRGB st)"

definition case_SATURATE :: "controller \<Rightarrow> controller" where
  "case_SATURATE st =
     (let st = st\<lparr>sat := sat st + 1 / real_of_int SAT_STEPS\<rparr>;
          st = (if sat st > 1 then blink (st\<lparr>sat := 1\<rparr>) else st)
      in call_HSBtoRGB st)"

definition case_PURE :: "controller \<Rightarrow> controller" where
  "case_PURE st = call_HSBtoRGB (st\<lparr>sat := 1, bright := 1, variableHue := False\<rparr>)"

definition case_DIM :: "controller \<Rightarrow> controller" where
  "case_DIM st =
     (let st = st\<lparr>bright := bright st * bright_ratio\<rparr>;
          st = call_HSBtoRGB st
      in if bright st < MIN_BRIGHT then st\<lparr>bright := MIN_BRIGHT\<rparr> else st)"

definition case_BRIGHTEN :: "controller \<Rightarrow> controller" where
  "case_BRIGHTEN st =
     (let st = (if bright st < MIN_BRIGHT then st\<lparr>bright := MIN_BRIGHT\<rparr> else st);
          st = st\<lparr>bright := bright st / bright_ratio\<rparr>;
          st = call_HSBtoRGB st
      in if red st = MAX_RGB \<or> green st = MAX_RGB \<or> blue st = MAX_RGB then blink st else st)"

definition case_INCR_RED :: "controller \<Rightarrow> controller" where
  "case_INCR_RED st =
     (let st = (if red st < MIN_RGB then st\<lparr>red := MIN_RGB\<rparr>
                else st\<lparr>red := red st / rgb_ratio\<rparr>);
          st = (if red st \<ge> MAX_RGB then blink (st\<lparr>red := MAX_RGB\<rparr>) else st);
          st = st\<lparr>variableHue := False\<rparr>
      in call_RGBtoHSB st)"

definition case_INCR_GREEN :: "controller \<Rightarrow> controller" where
  "case_INCR_GREEN st =
     (let st = (if green st < MIN_RGB then st\<lparr>green := MIN_RGB\<rparr>
                else st\<lparr>green := green st / rgb_ratio\<rparr>);
          st = (if green st \<ge> MAX_RGB then blink (st\<lparr>green := MAX_RGB\<rparr>) else st);
          st = st\<lparr>variableHue := False\<rparr>
      in call_RGBtoHSB st)"

definition case_INCR_BLUE :: "controller \<Rightarrow> controller" where
  "case_INCR_BLUE st =
     (let st = (if blue st < MIN_RGB then st\<lparr>blue := MIN_RGB\<rparr>
                else st\<lparr>blue := blue st / rgb_ratio\<rparr>);
          st = (if blue st \<ge> MAX_RGB then blink (st\<lparr>blue := MAX_RGB\<rparr>) else st);
          st = st\<lparr>variableHue := False\<rparr>
      in call_RGBtoHSB st)"

definition case_DECR_RED :: "controller \<Rightarrow> controller" where
  "case_DECR_RED st =
     (let st = st\<lparr>red := red st * rgb_ratio\<rparr>;
          st = (if red st < MIN_RGB then blink (st\<lparr>red := 0\<rparr>) else st);
          st = st\<lparr>variableHue := False\<rparr>
      in call_RGBtoHSB st)"

definition case_DECR_GREEN :: "controller \<Rightarrow> controller" where
  "case_DECR_GREEN st =
     (let st = st\<lparr>green := green st * rgb_ratio\<rparr>;
          st = (if green st < MIN_RGB then blink (st\<lparr>green := 0\<rparr>) else st);
          st = st\<lparr>variableHue := False\<rparr>
      in call_RGBtoHSB st)"

definition case_DECR_BLUE :: "controller \<Rightarrow> controller" where
  "case_DECR_BLUE st =
     (let st = st\<lparr>blue := blue st * rgb_ratio\<rparr>;
          st = (if blue st < MIN_RGB then blink (st\<lparr>blue := 0\<rparr>) else st);
          st = st\<lparr>variableHue := False\<rparr>
      in call_RGBtoHSB st)"

definition case_WARM_WHITE :: "controller \<Rightarrow> controller" where
  "case_WARM_WHITE st =
     call_RGBtoHSB (st\<lparr>red := 0xff, green := 0x93, blue := 0x29, variableHue := False\<rparr>)"

definition case_BRIGHT_WHITE :: "controller \<Rightarrow> controller" where
  "case_BRIGHT_WHITE st =
     call_RGBtoHSB (st\<lparr>red := 0xff, green := 0xf1, blue := 0xaa, variableHue := False\<rparr>)"

definition case_DAYLIGHT :: "controller \<Rightarrow> controller" where
  "case_DAYLIGHT st =
     call_RGBtoHSB (st\<lparr>red := 0xff, green := 0xf1, blue := 0xff, variableHue := False\<rparr>)"

text \<open>\<^verbatim>\<open>switch (MyDecoder.value & 0xffff)\<close>: the case labels are distinct, an unknown code
  reaches the empty \<^verbatim>\<open>default\<close>.\<close>

definition handle_key :: "16 word \<Rightarrow> controller \<Rightarrow> controller" where
  "handle_key key st =
     (if key = INIT then case_INIT st
      else if key = VAR_HUE then case_VAR_HUE st
      else if key = NEXT_HUE then case_NEXT_HUE st
      else if key = PREV_HUE then case_PREV_HUE st
      else if key = DESATURATE then case_DESATURATE st
      else if key = SATURATE then case_SATURATE st
      else if key = PURE then case_PURE st
      else if key = DIM then case_DIM st
      else if key = BRIGHTEN then case_BRIGHTEN st
      else if key = INCR_RED then case_INCR_RED st
      else if key = INCR_GREEN then case_INCR_GREEN st
      else if key = INCR_BLUE then case_INCR_BLUE st
      else if key = DECR_RED then case_DECR_RED st
      else if key = DECR_GREEN then case_DECR_GREEN st
      else if key = DECR_BLUE then case_DECR_BLUE st
      else if key = WARM_WHITE then case_WARM_WHITE st
      else if key = BRIGHT_WHITE then case_BRIGHT_WHITE st
      else if key = DAYLIGHT then case_DAYLIGHT st
      else st)"

subsection \<open>One pass of \<^verbatim>\<open>loop()\<close>\<close>

text \<open>
  \<open>now\<close> is the reading of \<^verbatim>\<open>millis()\<close> in this pass (one reading for the whole pass),
  \<open>pending\<close> the frame that \<^verbatim>\<open>MyReceiver.getResults()\<close> delivers, if any. The differences
  of \<^verbatim>\<open>unsigned long\<close> values wrap modulo \<open>2 ^ 32\<close>; \<^verbatim>\<open>repeatCount++\<close> wraps modulo
  \<open>2 ^ 16\<close> and the test reads the count before the increment.
\<close>

definition idle_check :: "32 word \<Rightarrow> controller \<Rightarrow> controller" where
  "idle_check now st =
     (if now - keyTimer st > 500 then st\<lparr>repeatCount := 0, lastKey := 0\<rparr> else st)"

definition on_frame :: "32 word \<Rightarrow> frame \<Rightarrow> controller \<Rightarrow> controller" where
  "on_frame now f st =
     (let v = decoded f;
          (v, st) =
            (if v = 0xffffffff
             then (let st = st\<lparr>keyTimer := now\<rparr>;
                       c = repeatCount st;
                       st = st\<lparr>repeatCount := c + 1\<rparr>
                   in (if c > 5 then ucast (lastKey st) else v, st))
             else (v, st))
      in if protocolNum f = 1 \<and> v \<noteq> 0 \<and> v \<noteq> 0xffffffff
         then (let st = st\<lparr>lastKey := ucast (v AND 0xffff)\<rparr>;
                   st = st\<lparr>keyTimer := now\<rparr>;
                   st = st\<lparr>fired := ucast (v AND 0xffff) # fired st\<rparr>
               in handle_key (ucast (v AND 0xffff)) st)
         else st)"

definition animate :: "32 word \<Rightarrow> controller \<Rightarrow> controller" where
  "animate now st =
     (if now - hueStepTimer st > 100
      then (let st = st\<lparr>hueStepTimer := now\<rparr>
            in if variableHue st
               then (let st = (if hue st > 1 \<and> hue st < 2
                               then st\<lparr>hue := hue st + 1 / real_of_int HUE_STEPS * 2\<rparr>
                               else st\<lparr>hue := hue st + 1 / real_of_int HUE_STEPS\<rparr>);
                         st = (if hue st > 1 then st\<lparr>hue := 0\<rparr> else st)
                     in call_HSBtoRGB st)
               else st)
      else st)"

definition loop :: "32 word \<Rightarrow> frame option \<Rightarrow> controller \<Rightarrow> controller" where
  "loop now pending st =
     (let st = idle_check now st;
          st = (case pending of None \<Rightarrow> st | Some f \<Rightarrow> on_frame now f st)
      in animate now st)"

text \<open>\<^verbatim>\<open>setup()\<close>: the globals start at zero, then the initial colour is set.\<close>

definition sketch_setup :: controller where
  "sketch_setup =
     call_HSBtoRGB
       \<lparr>hue = 0, sat = 1, bright = 1 / 3, hueStepTime = MIN_STEP_TIME, hueStepTimer = 0,
        red = 0, green = 0, blue = 0, lastKey = 0, repeatCount = 0, keyTimer = 0,
        variableHue = False, blinks = 0, fired = []\<rparr>"

text \<open>A run of the loop over timed passes, and the states the sketch can reach.\<close>

fun run :: "(32 word \<times> frame option) list \<Rightarrow> controller \<Rightarrow> controller" where
  "run [] st = st"
| "run ((now, pending) # passes) st = run passes (loop now pending st)"

inductive reachable :: "controller \<Rightarrow> bool" where
  reachable_setup: "reachable sketch_setup"
| reachable_loop: "reachable st \<Longrightarrow> reachable (loop now pending st)"

subsection \<open>Frame streams\<close>

text \<open>
  The repeat frame of the NEC protocol and the frame of a key, as the decoder delivers them.
  \<open>sentinel_passes t0 ps\<close> holds when every pass of \<open>ps\<close> comes at most 500 ms after the
  last frame before it (\<open>t0\<close> at the start) and every frame of \<open>ps\<close> is a repeat frame;
  \<open>frames\<close> counts the frames, \<open>last_frame_time\<close> is the time of the last one. \<open>held_key k n\<close>
  is a key held down: its frame, then \<open>n\<close> repeat frames 108 ms apart.
\<close>

definition repeat_frame :: frame where
  "repeat_frame = \<lparr>protocolNum = 1, decoded = 0xffffffff\<rparr>"

definition key_frame :: "16 word \<Rightarrow> frame" where
  "key_frame k = \<lparr>protocolNum = 1, decoded = ucast k\<rparr>"

fun sentinel_passes :: "32 word \<Rightarrow> (32 word \<times> frame option) list \<Rightarrow> bool" where
  "sentinel_passes t0 [] = True"
| "sentinel_passes t0 ((t, None) # ps) = (t - t0 \<le> 500 \<and> sentinel_passes t0 ps)"
| "sentinel_passes t0 ((t, Some f) # ps) =
     (t - t0 \<le> 500 \<and> f = repeat_frame \<and> sentinel_passes t ps)"

fun last_frame_time :: "32 word \<Rightarrow> (32 word \<times> frame option) list \<Rightarrow> 32 word" where
  "last_frame_time t0 [] = t0"
| "last_frame_time t0 ((t, None) # ps) = last_frame_time t0 ps"
| "last_frame_time t0 ((t, Some f) # ps) = last_frame_time t ps"

definition frames :: "(32 word \<times> frame option) list \<Rightarrow> nat" where
  "frames ps = length (filter (\<lambda>p. snd p \<noteq> None) ps)"

fun repeats :: "nat \<Rightarrow> 32 word \<Rightarrow> (32 word \<times> frame option) list" where
  "repeats 0 t = []"
| "repeats (Suc n) t = (t + 108, Some repeat_frame) # repeats n (t + 108)"

definition held_key :: "16 word \<Rightarrow> nat \<Rightarrow> (32 word \<times> frame option) list" where
  "held_key k n = (0, Some (key_frame k)) # repeats n 0"

text \<open>
  The variable-hue key pressed at 0 ms and again at 50 ms, then two passes without a frame
  at 101 ms and 202 ms.
\<close>

definition slowed_passes :: "(32 word \<times> frame option) list" where
  "slowed_passes =
     [(0, Some (key_frame VAR_HUE)), (50, Some (key_frame VAR_HUE)), (101, None), (202, None)]"

text \<open>The ranges the sketch keeps its colour variables in.\<close>

definition in_range :: "controller \<Rightarrow> bool" where
  "in_range st \<longleftrightarrow>
     0 \<le> hue st \<and> hue st \<le> 1 \<and> 0 \<le> sat st \<and> sat st \<le> 1 \<and> 0 \<le> bright st \<and>
     0 \<le> red st \<and> 0 \<le> green st \<and> 0 \<le> blue st"

subsection \<open>The key switch in binary32 arithmetic\<close>

text \<open>
  The globals that the cases of the switch read and write, the colour variables now binary32
  numbers, and the switch itself on them. \<open>blinks32\<close> counts the calls of \<^verbatim>\<open>blink()\<close>.
  \<^verbatim>\<open>pow(10.0, (log10(1.0 / MAX_RGB) / BRIGHT_STEPS))\<close> is a value of the C library, the
  same for \<^verbatim>\<open>RGB_STEPS\<close>: \<open>step_ratio32\<close> is the binary32 number nearest to its
  mathematical value \<open>255 powr (- 1 / 60)\<close>.
\<close>

definition step_ratio32 :: float32 where
  "step_ratio32 = Val (15297163 / 16777216)"

record globals32 =
  hue32 :: float32
  sat32 :: float32
  bright32 :: float32
  hueStepTime32 :: "32 word"
  hueStepTimer32 :: "32 word"
  red32 :: float32
  green32 :: float32
  blue32 :: float32
  variableHue32 :: bool
  blinks32 :: nat

definition call_HSBtoRGB32 :: "globals32 \<Rightarrow> globals32" where
  "call_HSBtoRGB32 st =
     (case HSBtoRGB_f32 (hue32 st) (sat32 st) (bright32 st) of
        (b, r, g, bl) \<Rightarrow> st\<lparr>bright32 := b, red32 := r, green32 := g, blue32 := bl\<rparr>)"

definition call_RGBtoHSB32 :: "globals32 \<Rightarrow> globals32" where
  "call_RGBtoHSB32 st =
     (case RGBtoHSB_f32 (hue32 st) (sat32 st) (bright32 st) (red32 st) (green32 st) (blue32 st) of
        (h, s, b) \<Rightarrow> st\<lparr>hue32 := h, sat32 := s, bright32 := b\<rparr>)"

definition blink32 :: "globals32 \<Rightarrow> globals32" where
  "blink32 st = st\<lparr>blinks32 := blinks32 st + 1\<rparr>"

text \<open>The hue step of \<^verbatim>\<open>case NEXT_HUE\<close>, which the animation repeats word for word, and
  that of \<^verbatim>\<open>case PREV_HUE\<close>.\<close>

definition case_NEXT_HUE32 :: "globals32 \<Rightarrow> globals32" where
  "case_NEXT_HUE32 st =
     (let st = (if hue32 st > Val 1 \<and> hue32 st < Val 2
                then st\<lparr>hue32 := hue32 st + Val 1 / Val (real_of_int HUE_STEPS) * Val 2\<rparr>
                else st\<lparr>hue32 := hue32 st + Val 1 / Val (real_of_int HUE_STEPS)\<rparr>);
          st = (if hue32 st > Val 1 then st\<lparr>hue32 := Val 0\<rparr> else st)
      in call_HSBtoRGB32 st)"

definition case_PREV_HUE32 :: "globals32 \<Rightarrow> globals32" where
  "case_PREV_HUE32 st =
     (let st = (if hue32 st > Val 1 \<and> hue32 st < Val 2
                then st\<lparr>hue32 := hue32 st - Val 1 / Val (real_of_int HUE_STEPS) * Val 2\<rparr>
                else st\<lparr>hue32 := hue32 st - Val 1 / Val (real_of_int HUE_STEPS)\<rparr>);
          st = (if hue32 st < Val (real_of_int (1 div HUE_STEPS)) then st\<lparr>hue32 := Val 1\<rparr>
                else st)
      in call_HSBtoRGB32 st)"

text \<open>The first statement of the three \<^verbatim>\<open>INCR\<close> cases, on the channel they edit.\<close>

definition kickstart32 :: "float32 \<Rightarrow> float32" where
  "kickstart32 x = (if x < MIN_RGB32 then MIN_RGB32 else x / step_ratio32)"

definition handle_key32 :: "16 word \<Rightarrow> globals32 \<Rightarrow> globals32" where
  "handle_key32 key st =
     (if key = INIT
      then (let st = st\<lparr>hue32 := Val 0, sat32 := Val 1, bright32 := Val 1 / Val 3\<rparr>;
                st = call_HSBtoRGB32 st
            in st\<lparr>hueStepTimer32 := MIN_STEP_TIME\<rparr>)
      else if key = VAR_HUE
      then (if variableHue32 st then blink32 (st\<lparr>hueStepTime32 := hueStepTime32 st * 2\<rparr>)
            else st\<lparr>variableHue32 := True\<rparr>)
      else if key = NEXT_HUE then case_NEXT_HUE32 st
      else if key = PREV_HUE then case_PREV_HUE32 st
      else if key = DESATURATE
      then (let st = st\<lparr>sat32 := sat32 st - Val 1 / Val (real_of_int SAT_STEPS)\<rparr>;
                st = (if sat32 st < Val 0 then blink32 (st\<lparr>sat32 := Val 0\<rparr>) else st)
            in call_HSBtoRGB32 st)
      else if key = SATURATE
      then (let st = st\<lparr>sat32 := sat32 st + Val 1 / Val (real_of_int SAT_STEPS)\<rparr>;
                st = (if sat32 st > Val 1 then blink32 (st\<lparr>sat32 := Val 1\<rparr>) else st)
            in call_HSBtoRGB32 st)
      else if key = PURE
      then call_HSBtoRGB32 (st\<lparr>sat32 := Val 1, bright32 := Val 1, variableHue32 := False\<rparr>)
      else if key = DIM
      then (let st = st\<lparr>bright32 := bright32 st * step_ratio32\<rparr>;
                st = call_HSBtoRGB32 st
            in if bright32 st < MIN_BRIGHT32 then st\<lparr>bright32 := MIN_BRIGHT32\<rparr> else st)
      else if key = BRIGHTEN
      then (let st = (if bright32 st < MIN_BRIGHT32 then st\<lparr>bright32 := MIN_BRIGHT32\<rparr>
                      else st);
                st = st\<lparr>bright32 := bright32 st / step_ratio32\<rparr>;
                st = call_HSBtoRGB32 st
            in if red32 st = MAX_RGB32 \<or> green32 st = MAX_RGB32 \<or> blue32 st = MAX_RGB32
               then blink32 st else st)
      else if key = INCR_RED
      then (let st = st\<lparr>red32 := kickstart32 (red32 st)\<rparr>;
                st = (if red32 st \<ge> MAX_RGB32 then blink32 (st\<lparr>red32 := MAX_RGB32\<rparr>)
                      else st)
            in call_RGBtoHSB32 (st\<lparr>variableHue32 := False\<rparr>))
      else if key = INCR_GREEN
      then (let st = st\<lparr>green32 := kickstart32 (green32 st)\<rparr>;
                st = (if green32 st \<ge> MAX_RGB32 then blink32 (st\<lparr>green32 := MAX_RGB32\<rparr>)
                      else st)
            in call_RGBtoHSB32 (st\<lparr>variableHue32 := False\<rparr>))
      else if key = INCR_BLUE
      then (let st = st\<lparr>blue32 := kickstart32 (blue32 st)\<rparr>;
                st = (if blue32 st \<ge> MAX_RGB32 then blink32 (st\<lparr>blue32 := MAX_RGB32\<rparr>)
                      else st)
            in call_RGBtoHSB32 (st\<lparr>variableHue32 := False\<rparr>))
      else if key = DECR_RED
      then (let st = st\<lparr>red32 := red32 st * step_ratio32\<rparr>;
                st = (if red32 st < MIN_RGB32 then blink32 (st\<lparr>red32 := Val 0\<rparr>) else st)
            in call_RGBtoHSB32 (st\<lparr>variableHue32 := False\<rparr>))
      else if key = DECR_GREEN
      then (let st = st\<lparr>green32 := green32 st * step_ratio32\<rparr>;
                st = (if green32 st < MIN_RGB32 then blink32 (st\<lparr>green32 := Val 0\<rparr>)
                      else st)
            in call_RGBtoHSB32 (st\<lparr>variableHue32 := False\<rparr>))
      else if key = DECR_BLUE
      then (let st = st\<lparr>blue32 := blue32 st * step_ratio32\<rparr>;
                st = (if blue32 st < MIN_RGB32 then blink32 (st\<lparr>blue32 := Val 0\<rparr>) else st)
            in call_RGBtoHSB32 (st\<lparr>variableHue32 := False\<rparr>))
      else if key = WARM_WHITE
      then call_RGBtoHSB32
             (st\<lparr>red32 := Val 0xff, green32 := Val 0x93, blue32 := Val 0x29,
                 variableHue32 := False\<rparr>)
      else if key = BRIGHT_WHITE
      then call_RGBtoHSB32
             (st\<lparr>red32 := Val 0xff, green32 := Val 0xf1, blue32 := Val 0xaa,
                 variableHue32 := False\<rparr>)
      else if key = DAYLIGHT
      then call_RGBtoHSB32
             (st\<lparr>red32 := Val 0xff, green32 := Val 0xf1, blue32 := Val 0xff,
                 variableHue32 := False\<rparr>)
      else st)"

text \<open>\<^verbatim>\<open>setup()\<close>, and a sequence of keys each of which reaches the switch.\<close>

definition setup32 :: globals32 where
  "setup32 =
     call_HSBtoRGB32
       \<lparr>hue32 = Val 0, sat32 = Val 1, bright32 = Val 1 / Val 3, hueStepTime32 = MIN_STEP_TIME,
        hueStepTimer32 = 0, red32 = Val 0, green32 = Val 0, blue32 = Val 0,
        variableHue32 = False, blinks32 = 0\<rparr>"

fun press32 :: "16 word list \<Rightarrow> globals32 \<Rightarrow> globals32" where
  "press32 [] st = st"
| "press32 (k # ks) st = press32 ks (handle_key32 k st)"

text \<open>
  A sequence of nine keys after which \<^verbatim>\<open>hue\<close> is above 1.
\<close>

definition overshoot_keys :: "16 word list" where
  "overshoot_keys = [DAYLIGHT, INCR_GREEN, DECR_RED, DIM, DIM, DIM, DIM, DIM, DECR_GREEN]"

section \<open>Properties of the colour engine\<close>

lemma HSBtoRGB_stages:
  "HSBtoRGB h s v =
    (let H = hue_phase h;
         r = desaturate s (red_ramp H);
         g = desaturate s (green_ramp H);
         b = desaturate s (blue_ramp H);
         v' = min v (bright_cap r g b)
     in (v', r * (v' * 3), g * (v' * 3), b * (v' * 3)))"
proof -
  have m: "(if x > c then c else x) = min x c" for x c :: real
    by (simp add: min_def)
  show ?thesis
    by (simp only: HSBtoRGB_def hue_phase_def red_ramp_def green_ramp_def blue_ramp_def
        desaturate_def bright_cap_def Let_def m)
qed

lemma hue_phase_bounds: "0 \<le> hue_phase h \<and> hue_phase h \<le> 3"
  by (simp add: hue_phase_def Let_def)

lemma hue_phase_id: "0 \<le> h \<Longrightarrow> h \<le> 1 \<Longrightarrow> hue_phase h = 3 * h"
  by (simp add: hue_phase_def Let_def)

lemma ramp_sum: "0 \<le> H \<Longrightarrow> H \<le> 3 \<Longrightarrow> red_ramp H + green_ramp H + blue_ramp H = 255"
  by (simp add: red_ramp_def green_ramp_def blue_ramp_def MAX_RGB_def)

lemma red_ramp_bounds: "0 \<le> red_ramp H \<and> red_ramp H \<le> 255"
  by (simp add: red_ramp_def MAX_RGB_def)

lemma green_ramp_bounds: "0 \<le> green_ramp H \<and> green_ramp H \<le> 255"
  by (simp add: green_ramp_def MAX_RGB_def)

lemma blue_ramp_bounds: "0 \<le> blue_ramp H \<and> blue_ramp H \<le> 255"
  by (simp add: blue_ramp_def MAX_RGB_def)

lemma ramp_floor: "red_ramp H = 0 \<or> green_ramp H = 0 \<or> blue_ramp H = 0"
  by (simp add: red_ramp_def green_ramp_def blue_ramp_def MAX_RGB_def)

lemma desaturate_sum:
  "pr + pg + pb = 255 \<Longrightarrow> desaturate s pr + desaturate s pg + desaturate s pb = 255"
proof -
  have "desaturate s pr + desaturate s pg + desaturate s pb
        = (1 - s) * 255 + s * (pr + pg + pb)"
    by (simp add: desaturate_def MAX_RGB_def field_simps)
  also assume "pr + pg + pb = 255"
  finally show ?thesis by (simp add: algebra_simps)
qed

lemma desaturate_nonneg: "0 \<le> s \<Longrightarrow> s \<le> 1 \<Longrightarrow> 0 \<le> x \<Longrightarrow> 0 \<le> desaturate s x"
  by (simp add: desaturate_def MAX_RGB_def)

lemma max3_ge_third:
  fixes r g b :: real
  assumes "r + g + b = 255"
  shows "85 \<le> max r (max g b)"
proof (rule ccontr)
  assume "\<not> 85 \<le> max r (max g b)"
  then have "r < 85" "g < 85" "b < 85" by simp_all
  with assms show False by linarith
qed

lemma bright_cap_pos: "r + g + b = 255 \<Longrightarrow> 0 < bright_cap r g b"
  using max3_ge_third [of r g b] by (simp add: bright_cap_def MAX_RGB_def)

lemma bright_cap_ge_third:
  assumes "r \<le> 255" "g \<le> 255" "b \<le> 255" "r + g + b = 255"
  shows "1 / 3 \<le> bright_cap r g b"
proof -
  have pos: "0 < max r (max g b)" using max3_ge_third [OF assms(4)] by linarith
  have le: "max r (max g b) \<le> 255" using assms by simp
  have "1 \<le> 255 / max r (max g b)"
    using pos le by (simp add: le_divide_eq)
  then show ?thesis by (simp add: bright_cap_def MAX_RGB_def)
qed

lemma desaturate_full: "desaturate 1 x = x"
  by (simp add: desaturate_def)

lemma HSBtoRGB_saturated:
  assumes "0 \<le> h" "h \<le> 1"
  shows "HSBtoRGB h 1 (1 / 3) = (1 / 3, red_ramp (3 * h), green_ramp (3 * h), blue_ramp (3 * h))"
proof -
  have H: "0 \<le> 3 * h" "3 * h \<le> 3" using assms by simp_all
  have "1 / 3 \<le> bright_cap (red_ramp (3 * h)) (green_ramp (3 * h)) (blue_ramp (3 * h))"
    by (rule bright_cap_ge_third)
       (simp_all add: red_ramp_bounds green_ramp_bounds blue_ramp_bounds ramp_sum H)
  then have "min (1 / 3) (bright_cap (red_ramp (3 * h)) (green_ramp (3 * h)) (blue_ramp (3 * h)))
             = 1 / 3"
    by (simp add: min_def)
  then show ?thesis
    using assms by (simp add: HSBtoRGB_stages Let_def hue_phase_id desaturate_full)
qed

lemma red_ramp_zero_iff: "0 \<le> H \<Longrightarrow> H < 3 \<Longrightarrow> red_ramp H = 0 \<longleftrightarrow> H = 0 \<or> 2 \<le> H"
  by (auto simp: red_ramp_def MAX_RGB_def)

lemma green_ramp_zero_iff: "0 \<le> H \<Longrightarrow> H < 3 \<Longrightarrow> green_ramp H = 0 \<longleftrightarrow> H \<le> 1"
  by (auto simp: green_ramp_def MAX_RGB_def)

lemma blue_ramp_zero_iff: "0 \<le> H \<Longrightarrow> H < 3 \<Longrightarrow> blue_ramp H = 0 \<longleftrightarrow> 1 \<le> H \<and> H \<le> 2"
  by (auto simp: blue_ramp_def MAX_RGB_def)


lemma HSBtoRGB_out:
  assumes "HSBtoRGB h s v = (v', r, g, b)"
  obtains dr dg db where
    "dr + dg + db = 255" "max dr (max dg db) \<ge> 85"
    "v' = min v (bright_cap dr dg db)"
    "r = dr * (v' * 3)" "g = dg * (v' * 3)" "b = db * (v' * 3)"
    "dr = desaturate s (red_ramp (hue_phase h))"
    "dg = desaturate s (green_ramp (hue_phase h))"
    "db = desaturate s (blue_ramp (hue_phase h))"
proof -
  define dr where "dr = desaturate s (red_ramp (hue_phase h))"
  define dg where "dg = desaturate s (green_ramp (hue_phase h))"
  define db where "db = desaturate s (blue_ramp (hue_phase h))"
  have sum: "dr + dg + db = 255"
    unfolding dr_def dg_def db_def
    by (rule desaturate_sum) (simp add: ramp_sum hue_phase_bounds)
  from assms have "v' = min v (bright_cap dr dg db)"
    "r = dr * (v' * 3)" "g = dg * (v' * 3)" "b = db * (v' * 3)"
    by (auto simp: HSBtoRGB_stages Let_def dr_def dg_def db_def)
  with sum max3_ge_third [OF sum] dr_def dg_def db_def show ?thesis
    by (rule_tac that)
qed

lemma scaled_le_ceiling:
  fixes x m v' :: real
  assumes "x \<le> m" "85 \<le> m" "v' \<le> 255 / m / 3" "0 \<le> v' \<or> 0 \<le> x"
  shows "x * (v' * 3) \<le> 255"
proof (cases "0 \<le> x \<and> 0 \<le> v'")
  case True
  have "x * (v' * 3) \<le> m * (v' * 3)"
    using assms True by (intro mult_right_mono) simp_all
  also have "m * (v' * 3) \<le> m * (255 / m / 3 * 3)"
    using assms by (intro mult_left_mono) simp_all
  also have "\<dots> = 255" using assms by simp
  finally show ?thesis .
next
  case False
  with assms(4) have "x * (v' * 3) \<le> 0"
    by (auto simp: mult_le_0_iff)
  then show ?thesis by simp
qed

lemma HSBtoRGB_effective_bright:
  assumes "HSBtoRGB h s v = (v', r, g, b)"
  shows "(r + g + b) / MAX_RGB / 3 = v' \<and> v' \<le> v \<and>
         (v' < v \<longrightarrow> max r (max g b) = MAX_RGB) \<and>
         (0 \<le> v \<or> 0 \<le> s \<and> s \<le> 1 \<longrightarrow> r \<le> MAX_RGB \<and> g \<le> MAX_RGB \<and> b \<le> MAX_RGB)"
proof -
  from assms obtain dr dg db where
    sum: "dr + dg + db = 255" and mx: "max dr (max dg db) \<ge> 85" and
    v': "v' = min v (bright_cap dr dg db)" and
    out: "r = dr * (v' * 3)" "g = dg * (v' * 3)" "b = db * (v' * 3)" and
    d: "dr = desaturate s (red_ramp (hue_phase h))" "dg = desaturate s (green_ramp (hue_phase h))"
       "db = desaturate s (blue_ramp (hue_phase h))"
    by (rule HSBtoRGB_out)
  define m where "m = max dr (max dg db)"
  have m: "85 \<le> m" "dr \<le> m" "dg \<le> m" "db \<le> m" using mx by (simp_all add: m_def)
  have cap: "bright_cap dr dg db = 255 / m / 3" by (simp add: bright_cap_def MAX_RGB_def m_def)
  have "r + g + b = (dr + dg + db) * (v' * 3)"
    by (simp add: out algebra_simps)
  then have mean: "(r + g + b) / MAX_RGB / 3 = v'"
    using sum by (simp add: MAX_RGB_def)
  have le: "v' \<le> v" by (simp add: v')
  have capped: "max r (max g b) = MAX_RGB" if "v' < v"
  proof -
    from that have eq: "v' = 255 / m / 3" using v' cap by (simp add: min_def split: if_splits)
    then have pos: "0 \<le> v' * 3" using m(1) by simp
    have "max r (max g b) = m * (v' * 3)"
      unfolding out m_def using pos by (simp add: max_mult_distrib_right)
    also have "\<dots> = 255" using m(1) eq by simp
    finally show ?thesis by (simp add: MAX_RGB_def)
  qed
  have ceil: "r \<le> MAX_RGB \<and> g \<le> MAX_RGB \<and> b \<le> MAX_RGB" if "0 \<le> v \<or> 0 \<le> s \<and> s \<le> 1"
  proof -
    have 1: "v' \<le> 255 / m / 3" using v' cap by simp
    have "0 \<le> v' \<or> (0 \<le> dr \<and> 0 \<le> dg \<and> 0 \<le> db)"
    proof (cases "0 \<le> v")
      case True
      have "0 \<le> 255 / m / 3" using m(1) by simp
      with True have "0 \<le> v'" using v' cap by (simp add: min_def)
      then show ?thesis ..
    next
      case False
      with that have "0 \<le> s" "s \<le> 1" by simp_all
      then have "0 \<le> dr \<and> 0 \<le> dg \<and> 0 \<le> db"
        unfolding d
        by (simp add: desaturate_nonneg red_ramp_bounds green_ramp_bounds blue_ramp_bounds)
      then show ?thesis ..
    qed
    then have s: "0 \<le> v' \<or> 0 \<le> dr" "0 \<le> v' \<or> 0 \<le> dg" "0 \<le> v' \<or> 0 \<le> db" by auto
    show ?thesis
      unfolding out MAX_RGB_def
      using scaled_le_ceiling [OF m(2) m(1) 1 s(1)] scaled_le_ceiling [OF m(3) m(1) 1 s(2)]
        scaled_le_ceiling [OF m(4) m(1) 1 s(3)] by simp
  qed
  from mean le capped ceil show ?thesis by blast
qed

lemma HSBtoRGB_0_1_1: "HSBtoRGB 0 1 1 = (1 / 3, 0, 0, 255)"
  unfolding HSBtoRGB_def Let_def by (simp add: MAX_RGB_def)

text \<open>
  Claim C3, as amended. For every hue in \<open>[0, 1)\<close> with \<open>sat = 1\<close> and \<open>bright = 1/3\<close>,
  \<^verbatim>\<open>HSBtoRGB\<close> leaves the brightness at 1/3 and returns channels that are not negative and
  sum to 255. One channel is at the floor 0, except at the three primaries (hue 0, 1/3 and
  2/3), where two channels are at the floor and the third is 255.
\<close>

theorem HSBtoRGB_floor_channels:
  assumes "0 \<le> h" "h < 1" "HSBtoRGB h 1 (1 / 3) = (v', r, g, b)"
  shows "v' = 1 / 3 \<and> r + g + b = 255 \<and> 0 \<le> r \<and> 0 \<le> g \<and> 0 \<le> b \<and>
         channels_at_floor (v', r, g, b) = (if h = 0 \<or> h = 1 / 3 \<or> h = 2 / 3 then 2 else 1)"
proof -
  have H: "0 \<le> 3 * h" "3 * h < 3" "3 * h \<le> 3" using assms by simp_all
  from assms have out: "v' = 1 / 3" "r = red_ramp (3 * h)" "g = green_ramp (3 * h)"
    "b = blue_ramp (3 * h)"
    by (simp_all add: HSBtoRGB_saturated)
  have sum: "r + g + b = 255"
    unfolding out by (rule ramp_sum) (rule H)+
  have nonneg: "0 \<le> r" "0 \<le> g" "0 \<le> b"
    unfolding out by (simp_all add: red_ramp_bounds green_ramp_bounds blue_ramp_bounds)
  have zr: "r = 0 \<longleftrightarrow> h = 0 \<or> 2 / 3 \<le> h"
    unfolding out using red_ramp_zero_iff [OF H(1) H(2)] by auto
  have zg: "g = 0 \<longleftrightarrow> h \<le> 1 / 3"
    unfolding out using green_ramp_zero_iff [OF H(1) H(2)] by auto
  have zb: "b = 0 \<longleftrightarrow> 1 / 3 \<le> h \<and> h \<le> 2 / 3"
    unfolding out using blue_ramp_zero_iff [OF H(1) H(2)] by auto
  have "channels_at_floor (v', r, g, b) = (if h = 0 \<or> h = 1 / 3 \<or> h = 2 / 3 then 2 else 1)"
    using assms by (auto simp: channels_at_floor_def zr zg zb)
  with out(1) sum nonneg show ?thesis by simp
qed

lemma HSBtoRGB_quarter: "HSBtoRGB (1 / 4) 1 (1 / 3) = (1 / 3, 765 / 4, 0, 255 / 4)"
  unfolding HSBtoRGB_def Let_def by (simp add: MAX_RGB_def)

theorem HSBtoRGB_floor_channels_witness:
  "(0::real) \<le> 1 / 4 \<and> (1 / 4 :: real) < 1 \<and>
   HSBtoRGB (1 / 4) 1 (1 / 3) = (1 / 3, 765 / 4, 0, 255 / 4) \<and>
   channels_at_floor (1 / 3, 765 / 4, 0, 255 / 4) = 1"
  using HSBtoRGB_floor_channels [OF _ _ HSBtoRGB_quarter] HSBtoRGB_quarter by simp

text \<open>
  Claim C3 as stated asks for exactly one channel at the floor; at hue 0 (pure blue) red and
  green are both 0.
\<close>

theorem HSBtoRGB_floor_channels_counterexample:
  "channels_at_floor (HSBtoRGB 0 1 (1 / 3)) = 2"
  by (simp add: HSBtoRGB_saturated red_ramp_def green_ramp_def blue_ramp_def MAX_RGB_def
      channels_at_floor_def)


lemma RGBtoHSB_stages:
  "RGBtoHSB h s v r g b =
    (let v' = (r + g + b) / MAX_RGB / 3;
         (r, g, b) = normalise r g b;
         s' = sat_of r g b;
         (r, g, b) = resaturate s' r g b;
         h' = (if s' > 0 \<and> v' > 0 then hue_of h r g b else h)
     in (h', s', v'))"
  unfolding RGBtoHSB_def normalise_def sat_of_def resaturate_def hue_of_def Let_def split_def
  by (rule refl)

lemma normalise_scaled:
  assumes "dr + dg + db = 255" "0 < k"
  shows "normalise (dr * k) (dg * k) (db * k) = (dr, dg, db)"
proof -
  have "dr * k + dg * k + db * k = (dr + dg + db) * k"
    by (simp add: algebra_simps)
  then have sum: "dr * k + dg * k + db * k = 255 * k"
    using assms(1) by simp
  have "x * k * (255 / (255 * k)) = x" for x using assms(2) by simp
  then show ?thesis
    using assms(2) by (simp add: normalise_def Let_def sum MAX_RGB_def)
qed

lemma desaturate_mono: "0 \<le> s \<Longrightarrow> x \<le> y \<Longrightarrow> desaturate s x \<le> desaturate s y"
  by (simp add: desaturate_def mult_left_mono)

lemma desaturate_min:
  "0 \<le> s \<Longrightarrow> min (desaturate s x) (desaturate s y) = desaturate s (min x y)"
  by (simp add: min_def desaturate_mono antisym)

lemma sat_of_desaturate:
  assumes "0 \<le> s" "min x (min y z) = 0"
  shows "sat_of (desaturate s x) (desaturate s y) (desaturate s z) = s"
proof -
  have "min (desaturate s x) (min (desaturate s y) (desaturate s z)) = desaturate s 0"
    using assms by (simp add: desaturate_min)
  then show ?thesis by (simp add: sat_of_def desaturate_def MAX_RGB_def)
qed

lemma ramps_1: "0 \<le> H \<Longrightarrow> H \<le> 1 \<Longrightarrow>
    red_ramp H = 255 * H \<and> green_ramp H = 0 \<and> blue_ramp H = 255 - 255 * H"
  by (simp add: red_ramp_def green_ramp_def blue_ramp_def MAX_RGB_def)

lemma ramps_2: "1 < H \<Longrightarrow> H \<le> 2 \<Longrightarrow>
    red_ramp H = 255 - 255 * (H - 1) \<and> green_ramp H = 255 * (H - 1) \<and> blue_ramp H = 0"
  by (simp add: red_ramp_def green_ramp_def blue_ramp_def MAX_RGB_def)

lemma ramps_3: "2 < H \<Longrightarrow> H \<le> 3 \<Longrightarrow>
    red_ramp H = 0 \<and> green_ramp H = 255 - 255 * (H - 2) \<and> blue_ramp H = 255 * (H - 2)"
  by (simp add: red_ramp_def green_ramp_def blue_ramp_def MAX_RGB_def)

lemma hue_of_1:
  assumes "0 \<le> H" "H \<le> 1"
  shows "hue_of h0 (255 * H) 0 (255 - 255 * H) = H / 3"
  unfolding hue_of_def Let_def MAX_RGB_def using assms by (simp add: diff_divide_distrib)

lemma hue_of_2:
  assumes "1 < H" "H \<le> 2"
  shows "hue_of h0 (255 - 255 * (H - 1)) (255 * (H - 1)) 0 = H / 3"
  unfolding hue_of_def Let_def MAX_RGB_def using assms by (simp add: diff_divide_distrib)

lemma hue_of_3:
  assumes "2 < H" "H < 3"
  shows "hue_of h0 0 (255 - 255 * (H - 2)) (255 * (H - 2)) = H / 3"
  unfolding hue_of_def Let_def MAX_RGB_def using assms by (simp add: diff_divide_distrib)


lemma hue_of_ramps:
  assumes "0 \<le> H" "H < 3"
  shows "hue_of h0 (red_ramp H) (green_ramp H) (blue_ramp H) = H / 3"
proof -
  consider "H \<le> 1" | "1 < H" "H \<le> 2" | "2 < H" by linarith
  then show ?thesis
  proof cases
    case 1
    show ?thesis by (simp only: ramps_1 [OF assms(1) 1] hue_of_1 [OF assms(1) 1])
  next
    case 2
    show ?thesis by (simp only: ramps_2 [OF 2] hue_of_2 [OF 2])
  next
    case 3
    have "H \<le> 3" using assms by simp
    show ?thesis by (simp only: ramps_3 [OF 3 \<open>H \<le> 3\<close>] hue_of_3 [OF 3 assms(2)])
  qed
qed

lemma resaturate_channel: "s \<noteq> 0 \<Longrightarrow> (desaturate s x - MAX_RGB / 3 + MAX_RGB / 3 * s) / s = x"
  by (simp add: desaturate_def MAX_RGB_def field_simps)

lemma desaturate_le_iff: "0 < s \<Longrightarrow> desaturate s x \<le> desaturate s y \<longleftrightarrow> x \<le> y"
  by (simp add: desaturate_def)

lemma resaturate_desaturate:
  assumes "0 < s" "0 \<le> x" "0 \<le> y" "0 \<le> z" "x = 0 \<or> y = 0 \<or> z = 0"
  shows "resaturate s (desaturate s x) (desaturate s y) (desaturate s z) = (x, y, z)"
proof -
  have s: "s \<noteq> 0" using assms(1) by simp
  have ch: "(desaturate s a - MAX_RGB / 3 + MAX_RGB * s / 3) / s = a" for a
    using resaturate_channel [OF s, of a] by simp
  note le = desaturate_le_iff [OF assms(1)]
  consider "x \<le> y" "x \<le> z" | "\<not> (x \<le> y \<and> x \<le> z)" "y \<le> x" "y \<le> z"
    | "\<not> (x \<le> y \<and> x \<le> z)" "\<not> (y \<le> x \<and> y \<le> z)" "z \<le> y" "z \<le> x"
    by linarith
  then show ?thesis
  proof cases
    case 1
    then have "x = 0" using assms by linarith
    with 1 show ?thesis unfolding resaturate_def by (simp add: le ch)
  next
    case 2
    then have "y = 0" using assms by linarith
    with 2 show ?thesis unfolding resaturate_def by (simp add: le ch)
  next
    case 3
    then have "z = 0" using assms by linarith
    with 3 show ?thesis unfolding resaturate_def by (simp add: le ch)
  qed
qed


lemma ramp_min: "min (red_ramp H) (min (green_ramp H) (blue_ramp H)) = 0"
  using ramp_floor [of H] red_ramp_bounds [of H] green_ramp_bounds [of H] blue_ramp_bounds [of H]
  by (auto simp: min_def)

text \<open>
  In exact arithmetic the round trip is the identity on hue, saturation and the brightness
  that \<^verbatim>\<open>HSBtoRGB\<close> wrote back, for every hue in \<open>[0, 1)\<close>, saturation in \<open>(0, 1]\<close>
  and brightness above 0, whatever the three variables held before. What is lost of it in
  binary32 arithmetic is the subject of the last section.
\<close>

lemma roundtrip_exact:
  assumes "0 \<le> h" "h < 1" "0 < s" "s \<le> 1" "0 < v" "HSBtoRGB h s v = (v', r, g, b)"
  shows "RGBtoHSB h0 s0 v0 r g b = (h, s, v') \<and> (max r (max g b) < MAX_RGB \<longrightarrow> v' = v)"
proof -
  define H where "H = hue_phase h"
  have H: "H = 3 * h" "0 \<le> H" "H < 3"
    using assms(1,2) by (simp_all add: H_def hue_phase_id)
  from assms(6) obtain dr dg db where
    sum: "dr + dg + db = 255" and
    v': "v' = min v (bright_cap dr dg db)" and
    out: "r = dr * (v' * 3)" "g = dg * (v' * 3)" "b = db * (v' * 3)" and
    d: "dr = desaturate s (red_ramp H)" "dg = desaturate s (green_ramp H)"
       "db = desaturate s (blue_ramp H)"
    unfolding H_def by (rule HSBtoRGB_out)
  have pos: "0 < v'"
    using assms(5) bright_cap_pos [OF sum] by (simp add: v')
  then have k: "0 < v' * 3" by simp
  have "r + g + b = (dr + dg + db) * (v' * 3)"
    by (simp add: out algebra_simps)
  then have mean: "(r + g + b) / MAX_RGB / 3 = v'"
    using sum by (simp add: MAX_RGB_def)
  have norm: "normalise r g b = (dr, dg, db)"
    unfolding out by (rule normalise_scaled [OF sum k])
  have sat: "sat_of dr dg db = s"
    unfolding d using assms(3) by (intro sat_of_desaturate ramp_min) simp
  have resat: "resaturate s dr dg db = (red_ramp H, green_ramp H, blue_ramp H)"
    unfolding d
    using assms(3) red_ramp_bounds [of H] green_ramp_bounds [of H] blue_ramp_bounds [of H]
      ramp_floor [of H]
    by (intro resaturate_desaturate) simp_all
  have hue: "hue_of h0 (red_ramp H) (green_ramp H) (blue_ramp H) = h"
    using hue_of_ramps [OF H(2) H(3), of h0] by (simp add: H(1))
  have rt: "RGBtoHSB h0 s0 v0 r g b = (h, s, v')"
  proof -
    have mean': "(r + g + b) / (MAX_RGB * 3) = v'" using mean by simp
    show ?thesis
      using assms(3) pos by (simp add: RGBtoHSB_stages norm sat resat hue mean' Let_def)
  qed
  have "v' = v" if "max r (max g b) < MAX_RGB"
  proof (rule ccontr)
    assume "v' \<noteq> v"
    then have "v' < v" using v' by (simp add: min_def split: if_splits)
    then have "max r (max g b) = MAX_RGB"
      using HSBtoRGB_effective_bright [OF assms(6)] by blast
    with that show False by simp
  qed
  with rt show ?thesis by blast
qed

text \<open>
  The 2017 conversion on equal channels, whatever their common value: the hue passed in is
  the hue left in the caller's variable.
\<close>

lemma RGBtoHSB_singular:
  "fst (RGBtoHSB h0 s0 v0 c c c) = h0"
proof (cases "0 < c")
  case True
  then have "normalise c c c = (85, 85, 85)"
    by (simp add: normalise_def Let_def MAX_RGB_def)
  then show ?thesis
    by (simp add: RGBtoHSB_stages sat_of_def MAX_RGB_def)
next
  case False
  then have "\<not> (c + c + c) / MAX_RGB / 3 > 0"
    by (simp add: MAX_RGB_def divide_le_0_iff not_less)
  then show ?thesis
    by (simp add: RGBtoHSB_stages Let_def split_def)
qed


lemma RGBtoHSB_blue: "RGBtoHSB 0 1 (1 / 3) 0 0 255 = (0, 1, 1 / 3)"
  unfolding RGBtoHSB_def Let_def by (simp add: MAX_RGB_def)

text \<open>The bound on brightness is part of the design, not an effect of rounding: pure blue
  asked for at brightness 1 comes back at brightness 1/3 in exact arithmetic too.\<close>

lemma roundtrip_blue: "roundtrip 0 1 1 = (0, 1, 1 / 3)"
  by (simp add: roundtrip_def HSBtoRGB_0_1_1 RGBtoHSB_blue)

text \<open>
  Claim C2. The inverse conversion of v. 2.1 has no guard on its hue assignments, although
  its header comment promises one. On black it leaves NaN in the caller's hue (a quotient
  of zero by zero), on white it leaves 0.1; the hue held before, 50 here, is lost in both.
\<close>

theorem RGBtoHSB_v2_overwrites_hue:
  "RGBtoHSB_v2 (Fin 50) 1 (1 / 3) 0 0 0 = (NaN, 1, 1 / 3) \<and>
   RGBtoHSB_v2 (Fin 50) 1 (1 / 3) 255 255 255 = (Fin (1 / 10), 0, 1 / 3)"
  unfolding RGBtoHSB_v2_def Let_def by (simp add: MAX_RGB_def fle_def fmin_def)

lemma RGBtoHSB_v2_grey: "RGBtoHSB_v2 (Fin 50) 1 (1 / 3) 100 100 100 = (NaN, 31 / 51, 1 / 3)"
  unfolding RGBtoHSB_v2_def Let_def by (simp add: MAX_RGB_def fle_def fmin_def)

section \<open>Properties of the key state machine\<close>

lemma call_HSBtoRGB_keys [simp]:
  "lastKey (call_HSBtoRGB st) = lastKey st" "repeatCount (call_HSBtoRGB st) = repeatCount st"
  "keyTimer (call_HSBtoRGB st) = keyTimer st" "fired (call_HSBtoRGB st) = fired st"
  "blinks (call_HSBtoRGB st) = blinks st" "hueStepTime (call_HSBtoRGB st) = hueStepTime st"
  "variableHue (call_HSBtoRGB st) = variableHue st" "hue (call_HSBtoRGB st) = hue st"
  "sat (call_HSBtoRGB st) = sat st" "hueStepTimer (call_HSBtoRGB st) = hueStepTimer st"
  by (simp_all add: call_HSBtoRGB_def split: prod.splits)

lemma call_RGBtoHSB_keys [simp]:
  "lastKey (call_RGBtoHSB st) = lastKey st" "repeatCount (call_RGBtoHSB st) = repeatCount st"
  "keyTimer (call_RGBtoHSB st) = keyTimer st" "fired (call_RGBtoHSB st) = fired st"
  "blinks (call_RGBtoHSB st) = blinks st" "hueStepTime (call_RGBtoHSB st) = hueStepTime st"
  "variableHue (call_RGBtoHSB st) = variableHue st" "red (call_RGBtoHSB st) = red st"
  "green (call_RGBtoHSB st) = green st" "blue (call_RGBtoHSB st) = blue st"
  "hueStepTimer (call_RGBtoHSB st) = hueStepTimer st"
  by (simp_all add: call_RGBtoHSB_def split: prod.splits)

lemma blink_keys [simp]:
  "lastKey (blink st) = lastKey st" "repeatCount (blink st) = repeatCount st"
  "keyTimer (blink st) = keyTimer st" "fired (blink st) = fired st"
  "blinks (blink st) = blinks st + 1" "hueStepTime (blink st) = hueStepTime st"
  "variableHue (blink st) = variableHue st" "hue (blink st) = hue st" "sat (blink st) = sat st"
  "bright (blink st) = bright st" "red (blink st) = red st" "green (blink st) = green st"
  "blue (blink st) = blue st" "hueStepTimer (blink st) = hueStepTimer st"
  by (simp_all add: blink_def)

lemmas case_defs = case_INIT_def case_VAR_HUE_def case_NEXT_HUE_def case_PREV_HUE_def
  case_DESATURATE_def case_SATURATE_def case_PURE_def case_DIM_def case_BRIGHTEN_def
  case_INCR_RED_def case_INCR_GREEN_def case_INCR_BLUE_def case_DECR_RED_def
  case_DECR_GREEN_def case_DECR_BLUE_def case_WARM_WHITE_def case_BRIGHT_WHITE_def
  case_DAYLIGHT_def

lemma case_keys [simp]:
  "lastKey (case_INIT st) = lastKey st \<and> repeatCount (case_INIT st) = repeatCount st \<and>
   keyTimer (case_INIT st) = keyTimer st \<and> fired (case_INIT st) = fired st"
  "lastKey (case_VAR_HUE st) = lastKey st \<and> repeatCount (case_VAR_HUE st) = repeatCount st \<and>
   keyTimer (case_VAR_HUE st) = keyTimer st \<and> fired (case_VAR_HUE st) = fired st"
  "lastKey (case_NEXT_HUE st) = lastKey st \<and> repeatCount (case_NEXT_HUE st) = repeatCount st \<and>
   keyTimer (case_NEXT_HUE st) = keyTimer st \<and> fired (case_NEXT_HUE st) = fired st"
  "lastKey (case_PREV_HUE st) = lastKey st \<and> repeatCount (case_PREV_HUE st) = repeatCount st \<and>
   keyTimer (case_PREV_HUE st) = keyTimer st \<and> fired (case_PREV_HUE st) = fired st"
  "lastKey (case_DESATURATE st) = lastKey st \<and> repeatCount (case_DESATURATE st) = repeatCount st \<and>
   keyTimer (case_DESATURATE st) = keyTimer st \<and> fired (case_DESATURATE st) = fired st"
  "lastKey (case_SATURATE st) = lastKey st \<and> repeatCount (case_SATURATE st) = repeatCount st \<and>
   keyTimer (case_SATURATE st) = keyTimer st \<and> fired (case_SATURATE st) = fired st"
  "lastKey (case_PURE st) = lastKey st \<and> repeatCount (case_PURE st) = repeatCount st \<and>
   keyTimer (case_PURE st) = keyTimer st \<and> fired (case_PURE st) = fired st"
  "lastKey (case_DIM st) = lastKey st \<and> repeatCount (case_DIM st) = repeatCount st \<and>
   keyTimer (case_DIM st) = keyTimer st \<and> fired (case_DIM st) = fired st"
  "lastKey (case_BRIGHTEN st) = lastKey st \<and> repeatCount (case_BRIGHTEN st) = repeatCount st \<and>
   keyTimer (case_BRIGHTEN st) = keyTimer st \<and> fired (case_BRIGHTEN st) = fired st"
  by (simp_all add: case_defs Let_def)

lemma case_keys2 [simp]:
  "lastKey (case_INCR_RED st) = lastKey st \<and> repeatCount (case_INCR_RED st) = repeatCount st \<and>
   keyTimer (case_INCR_RED st) = keyTimer st \<and> fired (case_INCR_RED st) = fired st"
  "lastKey (case_INCR_GREEN st) = lastKey st \<and> repeatCount (case_INCR_GREEN st) = repeatCount st \<and>
   keyTimer (case_INCR_GREEN st) = keyTimer st \<and> fired (case_INCR_GREEN st) = fired st"
  "lastKey (case_INCR_BLUE st) = lastKey st \<and> repeatCount (case_INCR_BLUE st) = repeatCount st \<and>
   keyTimer (case_INCR_BLUE st) = keyTimer st \<and> fired (case_INCR_BLUE st) = fired st"
  "lastKey (case_DECR_RED st) = lastKey st \<and> repeatCount (case_DECR_RED st) = repeatCount st \<and>
   keyTimer (case_DECR_RED st) = keyTimer st \<and> fired (case_DECR_RED st) = fired st"
  "lastKey (case_DECR_GREEN st) = lastKey st \<and> repeatCount (case_DECR_GREEN st) = repeatCount st \<and>
   keyTimer (case_DECR_GREEN st) = keyTimer st \<and> fired (case_DECR_GREEN st) = fired st"
  "lastKey (case_DECR_BLUE st) = lastKey st \<and> repeatCount (case_DECR_BLUE st) = repeatCount st \<and>
   keyTimer (case_DECR_BLUE st) = keyTimer st \<and> fired (case_DECR_BLUE st) = fired st"
  "lastKey (case_WARM_WHITE st) = lastKey st \<and> repeatCount (case_WARM_WHITE st) = repeatCount st \<and>
   keyTimer (case_WARM_WHITE st) = keyTimer st \<and> fired (case_WARM_WHITE st) = fired st"
  "lastKey (case_BRIGHT_WHITE st) = lastKey st \<and> repeatCount (case_BRIGHT_WHITE st) = repeatCount st \<and>
   keyTimer (case_BRIGHT_WHITE st) = keyTimer st \<and> fired (case_BRIGHT_WHITE st) = fired st"
  "lastKey (case_DAYLIGHT st) = lastKey st \<and> repeatCount (case_DAYLIGHT st) = repeatCount st \<and>
   keyTimer (case_DAYLIGHT st) = keyTimer st \<and> fired (case_DAYLIGHT st) = fired st"
  by (simp_all add: case_defs Let_def)

lemma handle_key_keys [simp]:
  "lastKey (handle_key k st) = lastKey st" "repeatCount (handle_key k st) = repeatCount st"
  "keyTimer (handle_key k st) = keyTimer st" "fired (handle_key k st) = fired st"
  by (simp_all add: handle_key_def)

lemma animate_keys [simp]:
  "lastKey (animate t st) = lastKey st" "repeatCount (animate t st) = repeatCount st"
  "keyTimer (animate t st) = keyTimer st" "fired (animate t st) = fired st"
  "blinks (animate t st) = blinks st" "hueStepTime (animate t st) = hueStepTime st"
  by (simp_all add: animate_def Let_def)


lemma ucast_key_roundtrip: "ucast ((ucast (k :: 16 word) :: 32 word) AND 0xffff) = k"
proof -
  have m: "(0xffff :: 32 word) = mask 16" by (simp add: mask_eq_exp_minus_1)
  show ?thesis unfolding m by (rule bit_word_eqI) (auto simp: bit_simps)
qed

lemma ucast_key_not_repeat: "(ucast (k :: 16 word) :: 32 word) \<noteq> 0xffffffff"
proof
  assume "(ucast k :: 32 word) = 0xffffffff"
  then have "bit (ucast k :: 32 word) 20 = bit (0xffffffff :: 32 word) 20" by simp
  then show False by (auto simp: bit_simps dest: bit_imp_le_length)
qed

lemma ucast_key_zero: "(ucast (k :: 16 word) :: 32 word) = 0 \<longleftrightarrow> k = 0"
proof
  assume "(ucast k :: 32 word) = 0"
  then have "ucast ((ucast k :: 32 word) AND 0xffff) = (0 :: 16 word)" by simp
  then show "k = 0" by (simp only: ucast_key_roundtrip)
next
  assume "k = 0"
  then show "(ucast k :: 32 word) = 0" by simp
qed

lemma on_frame_repeat:
  "fired (on_frame t repeat_frame st) =
     (if 5 < repeatCount st \<and> lastKey st \<noteq> 0 then lastKey st # fired st else fired st)"
  "lastKey (on_frame t repeat_frame st) = lastKey st"
  "repeatCount (on_frame t repeat_frame st) = repeatCount st + 1"
  "keyTimer (on_frame t repeat_frame st) = t"
  by (simp_all add: on_frame_def repeat_frame_def Let_def ucast_key_roundtrip
      ucast_key_not_repeat ucast_key_zero)

lemma on_frame_key:
  assumes "protocolNum f = 1" "decoded f \<noteq> 0" "decoded f \<noteq> 0xffffffff"
  shows "fired (on_frame t f st) = ucast (decoded f AND 0xffff) # fired st"
    "lastKey (on_frame t f st) = ucast (decoded f AND 0xffff)"
    "repeatCount (on_frame t f st) = repeatCount st"
    "keyTimer (on_frame t f st) = t"
  using assms by (simp_all add: on_frame_def Let_def)

lemma idle_check_fields [simp]:
  "fired (idle_check t st) = fired st" "keyTimer (idle_check t st) = keyTimer st"
  "blinks (idle_check t st) = blinks st"
  by (simp_all add: idle_check_def)

lemma idle_check_within: "t - keyTimer st \<le> 500 \<Longrightarrow> idle_check t st = st"
  by (simp add: idle_check_def not_less)

lemma idle_check_expired:
  "500 < t - keyTimer st \<Longrightarrow> repeatCount (idle_check t st) = 0 \<and> lastKey (idle_check t st) = 0"
  by (simp add: idle_check_def)


lemma loop_quiet:
  assumes "t - keyTimer st \<le> 500"
  shows "fired (loop t None st) = fired st" "lastKey (loop t None st) = lastKey st"
    "repeatCount (loop t None st) = repeatCount st" "keyTimer (loop t None st) = keyTimer st"
  using assms by (simp_all add: loop_def idle_check_within)

lemma loop_repeat:
  assumes "t - keyTimer st \<le> 500"
  shows "fired (loop t (Some repeat_frame) st) =
           (if 5 < repeatCount st \<and> lastKey st \<noteq> 0 then lastKey st # fired st else fired st)"
    "lastKey (loop t (Some repeat_frame) st) = lastKey st"
    "repeatCount (loop t (Some repeat_frame) st) = repeatCount st + 1"
    "keyTimer (loop t (Some repeat_frame) st) = t"
  using assms by (simp_all add: loop_def idle_check_within on_frame_repeat)

lemma count_step:
  fixes c :: "16 word"
  assumes "unat c < 65535"
  shows "unat (c + 1) = unat c + 1" "5 < c \<longleftrightarrow> 5 < unat c"
proof -
  show "unat (c + 1) = unat c + 1"
    using assms by (simp add: unat_word_ariths)
  show "5 < c \<longleftrightarrow> 5 < unat c"
    by (simp add: word_less_nat_alt)
qed

lemma frames_simps [simp]:
  "frames [] = 0" "frames ((t, None) # ps) = frames ps"
  "frames ((t, Some f) # ps) = Suc (frames ps)"
  by (simp_all add: frames_def)

text \<open>
  While the 16-bit count does not wrap, a held key behaves as claim C5 says: the sentinels
  that arrive when more than five have been counted fire the saved key, the others do not.
\<close>

lemma repeat_debounce:
  assumes "sentinel_passes (keyTimer st) ps" "lastKey st \<noteq> 0"
    "unat (repeatCount st) + frames ps \<le> 65535"
  shows "fired (run ps st) =
           replicate ((unat (repeatCount st) + frames ps - 6) - (unat (repeatCount st) - 6))
             (lastKey st) @ fired st \<and>
         lastKey (run ps st) = lastKey st \<and>
         unat (repeatCount (run ps st)) = unat (repeatCount st) + frames ps \<and>
         keyTimer (run ps st) = last_frame_time (keyTimer st) ps"
  using assms
proof (induction ps arbitrary: st)
  case Nil
  then show ?case by simp
next
  case (Cons p ps)
  obtain t pending where p: "p = (t, pending)" by (cases p)
  show ?case
  proof (cases pending)
    case None
    from Cons.prems have w: "t - keyTimer st \<le> 500" and rest: "sentinel_passes (keyTimer st) ps"
      by (simp_all add: p None)
    define st' where "st' = loop t None st"
    have st': "fired st' = fired st" "lastKey st' = lastKey st" "repeatCount st' = repeatCount st"
      "keyTimer st' = keyTimer st"
      unfolding st'_def by (simp_all add: loop_quiet [OF w])
    note fr = frames_simps
    have "sentinel_passes (keyTimer st') ps" "lastKey st' \<noteq> 0"
      "unat (repeatCount st') + frames ps \<le> 65535"
      using Cons.prems rest by (simp_all add: st' fr p None)
    from Cons.IH [OF this] show ?thesis
      by (simp add: p None st' fr flip: st'_def)
  next
    case (Some f)
    from Cons.prems have w: "t - keyTimer st \<le> 500" and f: "f = repeat_frame"
      and rest: "sentinel_passes t ps"
      by (simp_all add: p Some)
    define st' where "st' = loop t (Some repeat_frame) st"
    define c where "c = unat (repeatCount st)"
    note fr = frames_simps
    have c: "unat (repeatCount st) < 65535" using Cons.prems(3) by (simp add: fr p Some)
    have st': "fired st' = (if 5 < c then lastKey st # fired st else fired st)"
      "lastKey st' = lastKey st" "unat (repeatCount st') = c + 1" "keyTimer st' = t"
      unfolding st'_def c_def using Cons.prems(2)
      by (simp_all add: loop_repeat [OF w] count_step [OF c])
    have "sentinel_passes (keyTimer st') ps" "lastKey st' \<noteq> 0"
      "unat (repeatCount st') + frames ps \<le> 65535"
      using Cons.prems rest by (simp_all add: st' fr c_def p Some)
    from Cons.IH [OF this]
    have IH: "fired (run ps st') =
                replicate ((c + 1 + frames ps - 6) - (c + 1 - 6)) (lastKey st) @ fired st'"
      "lastKey (run ps st') = lastKey st"
      "unat (repeatCount (run ps st')) = c + 1 + frames ps"
      "keyTimer (run ps st') = last_frame_time t ps"
      by (simp_all add: st')
    have run: "run (p # ps) st = run ps st'"
      by (simp add: p Some f st'_def)
    have frp: "frames (p # ps) = Suc (frames ps)"
      and lft: "last_frame_time (keyTimer st) (p # ps) = last_frame_time t ps"
      by (simp_all add: p Some)
    have eq: "replicate ((c + 1 + frames ps - 6) - (c + 1 - 6)) (lastKey st) @ fired st'
          = replicate ((c + Suc (frames ps) - 6) - (c - 6)) (lastKey st) @ fired st"
    proof (cases "5 < c")
      case True
      then have "(c + Suc (frames ps) - 6) - (c - 6) = Suc ((c + 1 + frames ps - 6) - (c + 1 - 6))"
        by simp
      with True show ?thesis by (simp add: st'(1) replicate_app_Cons_same)
    next
      case False
      then have "(c + Suc (frames ps) - 6) - (c - 6) = (c + 1 + frames ps - 6) - (c + 1 - 6)"
        by simp
      with False show ?thesis by (simp add: st'(1))
    qed
    have 1: "fired (run ps st') =
               replicate ((c + Suc (frames ps) - 6) - (c - 6)) (lastKey st) @ fired st"
      using IH(1) eq by (rule trans)
    have 3: "unat (repeatCount (run ps st')) = c + Suc (frames ps)"
      using IH(3) by simp
    show ?thesis
      unfolding run frp lft c_def [symmetric] using 1 IH(2) 3 IH(4) by (intro conjI)
  qed
qed


lemma run_append: "run (ps @ qs) st = run qs (run ps st)"
  by (induction ps arbitrary: st) auto

lemma repeats_passes: "sentinel_passes t (repeats n t)"
  by (induction n arbitrary: t) simp_all

lemma frames_repeats: "frames (repeats n t) = n"
  by (induction n arbitrary: t) simp_all

lemma last_repeats: "last_frame_time t (repeats n t) = t + 108 * of_nat n"
  by (induction n arbitrary: t) (simp_all add: algebra_simps)

lemma repeats_add: "repeats (m + n) t = repeats m t @ repeats n (t + 108 * of_nat m)"
  by (induction m arbitrary: t) (simp_all add: algebra_simps)

lemma loop_key:
  assumes "protocolNum f = 1" "decoded f \<noteq> 0" "decoded f \<noteq> 0xffffffff"
  shows "fired (loop t (Some f) st) = ucast (decoded f AND 0xffff) # fired st"
    "lastKey (loop t (Some f) st) = ucast (decoded f AND 0xffff)"
    "repeatCount (loop t (Some f) st) = repeatCount (idle_check t st)"
    "keyTimer (loop t (Some f) st) = t"
  by (simp_all add: loop_def on_frame_key [OF assms])

lemma sketch_setup_keys:
  "fired sketch_setup = []" "repeatCount sketch_setup = 0" "keyTimer sketch_setup = 0"
  "lastKey sketch_setup = 0"
  by (simp_all add: sketch_setup_def)

lemma key_frame_valid:
  "k \<noteq> 0 \<Longrightarrow> protocolNum (key_frame k) = 1 \<and> decoded (key_frame k) \<noteq> 0 \<and>
     decoded (key_frame k) \<noteq> 0xffffffff"
  "ucast (decoded (key_frame k) AND 0xffff) = k"
  by (simp_all add: key_frame_def ucast_key_zero ucast_key_not_repeat ucast_key_roundtrip)

lemma key_press:
  assumes "k \<noteq> 0"
  defines "st1 \<equiv> loop 0 (Some (key_frame k)) sketch_setup"
  shows "fired st1 = [k]" "lastKey st1 = k" "repeatCount st1 = 0" "keyTimer st1 = 0"
proof -
  note v = key_frame_valid(1) [OF assms(1)]
  from v have a: "protocolNum (key_frame k) = 1" and b: "decoded (key_frame k) \<noteq> 0"
    and c: "decoded (key_frame k) \<noteq> 0xffffffff" by simp_all
  show "fired st1 = [k]" "lastKey st1 = k" "repeatCount st1 = 0" "keyTimer st1 = 0"
    unfolding st1_def
    by (simp_all add: loop_key [OF a b c] key_frame_valid(2) sketch_setup_keys idle_check_def)
qed

lemma held_key_fires:
  assumes "k \<noteq> 0" "n \<le> 65535"
  shows "fired (run (held_key k n) sketch_setup) = replicate (1 + (n - 6)) k"
proof -
  define st1 where "st1 = loop 0 (Some (key_frame k)) sketch_setup"
  note st1 = key_press [OF assms(1), folded st1_def]
  have "sentinel_passes (keyTimer st1) (repeats n 0)" "lastKey st1 \<noteq> 0"
    "unat (repeatCount st1) + frames (repeats n 0) \<le> 65535"
    using assms by (simp_all add: st1 repeats_passes frames_repeats)
  from repeat_debounce [OF this]
  have "fired (run (repeats n 0) st1) = replicate (n - 6) k @ [k]"
    by (simp add: st1 frames_repeats)
  then show ?thesis
    by (simp add: held_key_def replicate_append_same flip: st1_def)
qed

text \<open>
  Claim C5. One key frame followed by 4, 6 or 7 repeat frames fires 1, 1 and 2 commands: the
  first repeat that fires is the seventh. After 65536 repeat frames \<^verbatim>\<open>repeatCount\<close> has
  wrapped to zero, so the next six are swallowed again: 65537 repeat frames fire 65531
  commands in total, one fewer than one per sentinel after the threshold.
\<close>

theorem held_key_wraps:
  "length (fired (run (held_key NEXT_HUE 4) sketch_setup)) = 1 \<and>
   length (fired (run (held_key NEXT_HUE 6) sketch_setup)) = 1 \<and>
   length (fired (run (held_key NEXT_HUE 7) sketch_setup)) = 2 \<and>
   length (fired (run (held_key NEXT_HUE 65537) sketch_setup)) = 65531"
proof -
  define k where "k = NEXT_HUE"
  have k: "k \<noteq> 0" by (simp add: k_def NEXT_HUE_def)
  define st1 where "st1 = loop 0 (Some (key_frame k)) sketch_setup"
  note st1 = key_press [OF k, folded st1_def]
  define st2 where "st2 = run (repeats 65535 0) st1"
  have "sentinel_passes (keyTimer st1) (repeats 65535 0)" "lastKey st1 \<noteq> 0"
    "unat (repeatCount st1) + frames (repeats 65535 0) \<le> 65535"
    using k by (simp_all add: st1 repeats_passes frames_repeats)
  from repeat_debounce [OF this]
  have st2: "fired st2 = replicate 65529 k @ [k]" "lastKey st2 = k"
    "unat (repeatCount st2) = 65535" "keyTimer st2 = 108 * 65535"
    by (simp_all add: st1 frames_repeats last_repeats flip: st2_def)
  have "repeatCount st2 = of_nat (unat (repeatCount st2))" by simp
  also have "\<dots> = of_nat 65535" by (simp only: st2(3))
  finally have c2: "repeatCount st2 = 65535" by simp
  define t where "t = (108 * 65535 :: 32 word)"
  define t3 where "t3 = t + 108"
  define t4 where "t4 = t3 + 108"
  define st3 where "st3 = loop t3 (Some repeat_frame) st2"
  have w3: "t3 - keyTimer st2 \<le> 500" by (simp add: st2 t_def t3_def)
  have st3: "fired st3 = k # fired st2" "lastKey st3 = k" "repeatCount st3 = 0"
    "keyTimer st3 = t3"
    unfolding st3_def using k by (simp_all add: loop_repeat [OF w3] st2 c2)
  define st4 where "st4 = loop t4 (Some repeat_frame) st3"
  have w4: "t4 - keyTimer st3 \<le> 500" by (simp add: st3 t4_def)
  have st4: "fired st4 = fired st3"
    unfolding st4_def by (simp add: loop_repeat [OF w4] st3)
  have "repeats 65537 0 = repeats 65535 0 @ repeats 2 t"
    using repeats_add [of 65535 2 0] by (simp add: t_def)
  moreover have "repeats 2 t = [(t3, Some repeat_frame), (t4, Some repeat_frame)]"
    by (simp add: numeral_2_eq_2 t3_def t4_def)
  ultimately have "run (held_key k 65537) sketch_setup = st4"
    by (simp add: held_key_def run_append st4_def st3_def st2_def st1_def)
  then have "length (fired (run (held_key k 65537) sketch_setup)) = 65531"
    by (simp add: st4 st3 st2)
  then show ?thesis
    using held_key_fires [OF k, of 4] held_key_fires [OF k, of 6] held_key_fires [OF k, of 7]
    by (simp add: k_def)
qed


lemma loop_repeat_any:
  "fired (loop t (Some repeat_frame) st) =
     (if 5 < repeatCount (idle_check t st) \<and> lastKey (idle_check t st) \<noteq> 0
      then lastKey (idle_check t st) # fired st else fired st)"
  by (simp add: loop_def on_frame_repeat)

lemma idle_check_count_zero: "repeatCount st = 0 \<Longrightarrow> repeatCount (idle_check t st) = 0"
  by (simp add: idle_check_def)

text \<open>
  Claim C6. In a pass that finds the last frame more than 500 ms old, the repeat count and
  the saved key are cleared, whatever the state was. A key frame in that pass or in a later
  one fires once and leaves the count at zero, and a repeat frame following it does not fire.
\<close>

theorem idle_timeout_resets:
  assumes "500 < now - keyTimer st"
  shows "repeatCount (loop now None st) = 0 \<and> lastKey (loop now None st) = 0 \<and>
         (protocolNum f = 1 \<and> decoded f \<noteq> 0 \<and> decoded f \<noteq> 0xffffffff \<longrightarrow>
            fired (loop now (Some f) st) = ucast (decoded f AND 0xffff) # fired st \<and>
            repeatCount (loop now (Some f) st) = 0 \<and>
            fired (loop t (Some f) (loop now None st)) = ucast (decoded f AND 0xffff) # fired st \<and>
            repeatCount (loop t (Some f) (loop now None st)) = 0 \<and>
            fired (loop t' (Some repeat_frame) (loop t (Some f) (loop now None st))) =
              fired (loop t (Some f) (loop now None st)))"
proof -
  define st1 where "st1 = loop now None st"
  have st1: "repeatCount st1 = 0" "lastKey st1 = 0" "fired st1 = fired st"
    using idle_check_expired [OF assms] by (simp_all add: st1_def loop_def)
  have valid: "fired (loop now (Some f) st) = ucast (decoded f AND 0xffff) # fired st \<and>
            repeatCount (loop now (Some f) st) = 0 \<and>
            fired (loop t (Some f) st1) = ucast (decoded f AND 0xffff) # fired st \<and>
            repeatCount (loop t (Some f) st1) = 0 \<and>
            fired (loop t' (Some repeat_frame) (loop t (Some f) st1)) = fired (loop t (Some f) st1)"
    if f: "protocolNum f = 1" "decoded f \<noteq> 0" "decoded f \<noteq> 0xffffffff"
  proof -
    note lk = loop_key [OF f]
    have a: "repeatCount (loop now (Some f) st) = 0"
      using idle_check_expired [OF assms] by (simp add: lk)
    have b: "repeatCount (loop t (Some f) st1) = 0"
      by (simp add: lk idle_check_count_zero st1)
    have c: "fired (loop t' (Some repeat_frame) (loop t (Some f) st1)) = fired (loop t (Some f) st1)"
      by (simp add: loop_repeat_any idle_check_count_zero [OF b])
    show ?thesis using a b c by (simp add: lk st1)
  qed
  with st1 show ?thesis unfolding st1_def by blast
qed

theorem idle_timeout_resets_witness:
  "500 < (600 :: 32 word) - keyTimer (sketch_setup\<lparr>lastKey := NEXT_HUE, repeatCount := 9\<rparr>) \<and>
   repeatCount (loop 600 None (sketch_setup\<lparr>lastKey := NEXT_HUE, repeatCount := 9\<rparr>)) = 0 \<and>
   lastKey (loop 600 None (sketch_setup\<lparr>lastKey := NEXT_HUE, repeatCount := 9\<rparr>)) = 0 \<and>
   fired (loop 600 (Some (key_frame NEXT_HUE))
           (sketch_setup\<lparr>lastKey := NEXT_HUE, repeatCount := 9\<rparr>)) = [NEXT_HUE]"
proof -
  have h: "500 < (600 :: 32 word) - keyTimer (sketch_setup\<lparr>lastKey := NEXT_HUE, repeatCount := 9\<rparr>)"
    by (simp add: sketch_setup_keys)
  have k: "NEXT_HUE \<noteq> 0" by (simp add: NEXT_HUE_def)
  show ?thesis
    using idle_timeout_resets [OF h, of "key_frame NEXT_HUE" 700 800] h
      key_frame_valid [of NEXT_HUE] k
    by (simp add: sketch_setup_keys)
qed

section \<open>Properties of the key handlers\<close>

lemma HSBtoRGB_blue: "v \<le> 1 / 3 \<Longrightarrow> HSBtoRGB 0 1 v = (v, 0, 0, 255 * (v * 3))"
  by (simp add: HSBtoRGB_stages hue_phase_def red_ramp_def green_ramp_def blue_ramp_def
      desaturate_def bright_cap_def MAX_RGB_def Let_def min_def)

lemma sketch_setup_colour:
  "hue sketch_setup = 0" "sat sketch_setup = 1" "bright sketch_setup = 1 / 3"
  "red sketch_setup = 0" "green sketch_setup = 0" "blue sketch_setup = 255"
  "blinks sketch_setup = 0" "variableHue sketch_setup = False"
  by (simp_all add: sketch_setup_def call_HSBtoRGB_def HSBtoRGB_blue)

subsection \<open>The variable-hue key\<close>

lemma handle_VAR_HUE: "handle_key VAR_HUE st = case_VAR_HUE st"
  by (simp add: handle_key_def VAR_HUE_def INIT_def)

lemma var_hue_enabled:
  assumes "variableHue st"
  shows "hueStepTime (handle_key VAR_HUE st) = 2 * hueStepTime st"
    "variableHue (handle_key VAR_HUE st)" "blinks (handle_key VAR_HUE st) = blinks st + 1"
  using assms by (simp_all add: handle_VAR_HUE case_VAR_HUE_def)

lemma var_hue_iter:
  assumes "variableHue st"
  shows "hueStepTime ((handle_key VAR_HUE ^^ k) st) = 2 ^ k * hueStepTime st \<and>
         variableHue ((handle_key VAR_HUE ^^ k) st)"
  by (induction k) (simp_all add: assms var_hue_enabled)

lemma first_press:
  "variableHue (handle_key VAR_HUE sketch_setup) \<and>
   hueStepTime (handle_key VAR_HUE sketch_setup) = MIN_STEP_TIME"
  by (simp add: handle_VAR_HUE case_VAR_HUE_def sketch_setup_def)

text \<open>The animation never reads \<^verbatim>\<open>hueStepTime\<close>: its interval is the literal 100 of the
  test \<^verbatim>\<open>millis() - hueStepTimer > 100\<close>, whatever the variable holds.\<close>

lemma animate_ignores_hueStepTime:
  "animate now (st\<lparr>hueStepTime := x\<rparr>) = (animate now st)\<lparr>hueStepTime := x\<rparr>"
  by (simp add: animate_def call_HSBtoRGB_def Let_def split_def)

lemma setup_timing:
  "hueStepTime sketch_setup = 100" "hueStepTimer sketch_setup = 0"
  by (simp_all add: sketch_setup_def MIN_STEP_TIME_def)

lemma var_hue_frame:
  "(ucast VAR_HUE :: 32 word) \<noteq> 0xffffffff" "(ucast VAR_HUE :: 32 word) \<noteq> 0"
  by (simp_all add: ucast_key_not_repeat ucast_key_zero VAR_HUE_def)

lemmas pass_defs = loop_def idle_check_def on_frame_def key_frame_def animate_def
  handle_VAR_HUE case_VAR_HUE_def Let_def ucast_key_roundtrip var_hue_frame
  sketch_setup_colour sketch_setup_keys setup_timing HUE_STEPS_def

lemma slowed_2:
  "variableHue (run (take 2 slowed_passes) sketch_setup)"
  "hueStepTime (run (take 2 slowed_passes) sketch_setup) = 200"
  "hueStepTimer (run (take 2 slowed_passes) sketch_setup) = 0"
  "keyTimer (run (take 2 slowed_passes) sketch_setup) = 50"
  "hue (run (take 2 slowed_passes) sketch_setup) = 0"
  by (simp_all add: slowed_passes_def pass_defs)

lemma slowed_3:
  "variableHue (run (take 3 slowed_passes) sketch_setup)"
  "hueStepTime (run (take 3 slowed_passes) sketch_setup) = 200"
  "hueStepTimer (run (take 3 slowed_passes) sketch_setup) = 101"
  "hue (run (take 3 slowed_passes) sketch_setup) = 1 / 400"
  by (simp_all add: slowed_passes_def pass_defs)

lemma slowed_4:
  "hueStepTime (run slowed_passes sketch_setup) = 200"
  "hueStepTimer (run slowed_passes sketch_setup) = 202"
  "hue (run slowed_passes sketch_setup) = 1 / 200"
  by (simp_all add: slowed_passes_def pass_defs)

text \<open>
  Claim C9 fails on the sketch. The key doubles the variable \<^verbatim>\<open>hueStepTime\<close>, but no
  statement ever reads that variable, so the animation does not slow down, against the
  comment of \<^verbatim>\<open>case VAR_HUE\<close> and the README. After \<^verbatim>\<open>setup()\<close>, the key pressed at 0 ms
  starts the animation and pressed again at 50 ms sets \<^verbatim>\<open>hueStepTime\<close> to 200; the loop
  passes at 101 ms and 202 ms both step the hue, 101 ms apart. Nor is the variable kept
  below \<^verbatim>\<open>MAX_STEP_TIME\<close>: seven more presses after the first take it to 12800, and thirty
  take it to 0.
\<close>

theorem var_hue_interval_unread:
  "hueStepTime (run slowed_passes sketch_setup) = 200 \<and>
   variableHue (run (take 2 slowed_passes) sketch_setup) \<and>
   hueStepTimer (run (take 2 slowed_passes) sketch_setup) = 0 \<and>
   hueStepTimer (run (take 3 slowed_passes) sketch_setup) = 101 \<and>
   hue (run (take 3 slowed_passes) sketch_setup) \<noteq> hue (run (take 2 slowed_passes) sketch_setup) \<and>
   hueStepTimer (run slowed_passes sketch_setup) = 202 \<and>
   hue (run slowed_passes sketch_setup) \<noteq> hue (run (take 3 slowed_passes) sketch_setup) \<and>
   hueStepTime ((handle_key VAR_HUE ^^ 7) (handle_key VAR_HUE sketch_setup)) = 12800 \<and>
   MAX_STEP_TIME < 12800 \<and>
   hueStepTime ((handle_key VAR_HUE ^^ 30) (handle_key VAR_HUE sketch_setup)) = 0 \<and>
   (0 :: 32 word) < MIN_STEP_TIME"
  using var_hue_iter [of "handle_key VAR_HUE sketch_setup" 7]
    var_hue_iter [of "handle_key VAR_HUE sketch_setup" 30] first_press
  by (simp add: slowed_2 slowed_3 slowed_4 MIN_STEP_TIME_def MAX_STEP_TIME_def)

subsection \<open>Edits at a limit\<close>

lemma ratio_exponent: "log 10 (1 / 255) / 60 < (0 :: real)"
proof -
  have "log 10 (1 / 255) < (0 :: real)" by simp
  then show ?thesis by simp
qed

lemma bright_ratio_bounds: "0 < bright_ratio \<and> bright_ratio < 1"
proof -
  have "(10 :: real) powr (log 10 (1 / 255) / 60) < 10 powr 0"
    using ratio_exponent by (simp only: powr_less_cancel_iff)
  then show ?thesis by (simp add: bright_ratio_def MAX_RGB_def BRIGHT_STEPS_def)
qed

lemma rgb_ratio_bounds: "0 < rgb_ratio \<and> rgb_ratio < 1"
  using bright_ratio_bounds by (simp add: bright_ratio_def rgb_ratio_def RGB_STEPS_def BRIGHT_STEPS_def)


lemmas key_codes = INIT_def VAR_HUE_def NEXT_HUE_def PREV_HUE_def DESATURATE_def
  SATURATE_def PURE_def DIM_def BRIGHTEN_def INCR_RED_def INCR_GREEN_def INCR_BLUE_def
  DECR_RED_def DECR_GREEN_def DECR_BLUE_def WARM_WHITE_def BRIGHT_WHITE_def DAYLIGHT_def

lemma handle_key_cases:
  "handle_key INIT st = case_INIT st"
  "handle_key NEXT_HUE st = case_NEXT_HUE st"
  "handle_key PREV_HUE st = case_PREV_HUE st"
  "handle_key DESATURATE st = case_DESATURATE st"
  "handle_key SATURATE st = case_SATURATE st"
  "handle_key PURE st = case_PURE st"
  "handle_key DIM st = case_DIM st"
  "handle_key BRIGHTEN st = case_BRIGHTEN st"
  "handle_key INCR_RED st = case_INCR_RED st"
  "handle_key INCR_GREEN st = case_INCR_GREEN st"
  "handle_key INCR_BLUE st = case_INCR_BLUE st"
  "handle_key DECR_RED st = case_DECR_RED st"
  "handle_key DECR_GREEN st = case_DECR_GREEN st"
  "handle_key DECR_BLUE st = case_DECR_BLUE st"
  "handle_key WARM_WHITE st = case_WARM_WHITE st"
  "handle_key BRIGHT_WHITE st = case_BRIGHT_WHITE st"
  "handle_key DAYLIGHT st = case_DAYLIGHT st"
  by (simp_all add: handle_key_def key_codes)

text \<open>
  Claim C7. With brightness at its minimum, \<^verbatim>\<open>case DIM\<close> clamps \<^verbatim>\<open>bright\<close> back to
  \<^verbatim>\<open>MIN_BRIGHT\<close> but calls no \<^verbatim>\<open>blink()\<close>, and the channels have already been computed
  from the smaller, unclamped value: blue drops below \<^verbatim>\<open>MIN_RGB\<close>.
\<close>

theorem dim_at_minimum_no_blink:
  "blinks (sketch_setup\<lparr>bright := MIN_BRIGHT\<rparr>) = 0 \<and>
   blinks (handle_key DIM (sketch_setup\<lparr>bright := MIN_BRIGHT\<rparr>)) = 0 \<and>
   bright (handle_key DIM (sketch_setup\<lparr>bright := MIN_BRIGHT\<rparr>)) = MIN_BRIGHT \<and>
   blue (handle_key DIM (sketch_setup\<lparr>bright := MIN_BRIGHT\<rparr>)) = bright_ratio \<and>
   bright_ratio < MIN_RGB"
proof -
  define v where "v = MIN_BRIGHT * bright_ratio"
  have v: "v < MIN_BRIGHT" "v \<le> 1 / 3"
    using bright_ratio_bounds by (simp_all add: v_def MIN_BRIGHT_def MIN_RGB_def MAX_RGB_def)
  have "HSBtoRGB 0 1 v = (v, 0, 0, 255 * (v * 3))"
    by (rule HSBtoRGB_blue) (rule v)
  moreover have "255 * (v * 3) = bright_ratio"
    by (simp add: v_def MIN_BRIGHT_def MIN_RGB_def MAX_RGB_def)
  ultimately show ?thesis
    using v(1) bright_ratio_bounds
    by (simp add: handle_key_cases case_DIM_def call_HSBtoRGB_def sketch_setup_colour Let_def
        MIN_RGB_def flip: v_def)
qed

lemma dim_never_blinks: "blinks (handle_key DIM st) = blinks st"
  by (simp add: handle_key_cases case_DIM_def Let_def)

text \<open>The other edit commands do blink at their limits and keep the value there.\<close>

lemma limit_blinks:
  "sat st = 0 \<Longrightarrow>
     blinks (handle_key DESATURATE st) = blinks st + 1 \<and> sat (handle_key DESATURATE st) = 0"
  "sat st = 1 \<Longrightarrow>
     blinks (handle_key SATURATE st) = blinks st + 1 \<and> sat (handle_key SATURATE st) = 1"
  by (simp_all add: handle_key_cases case_DESATURATE_def case_SATURATE_def Let_def
      SAT_STEPS_def)

lemma limit_blinks_incr:
  "red st = MAX_RGB \<Longrightarrow>
     blinks (handle_key INCR_RED st) = blinks st + 1 \<and> red (handle_key INCR_RED st) = MAX_RGB"
  "green st = MAX_RGB \<Longrightarrow>
     blinks (handle_key INCR_GREEN st) = blinks st + 1 \<and>
     green (handle_key INCR_GREEN st) = MAX_RGB"
  "blue st = MAX_RGB \<Longrightarrow>
     blinks (handle_key INCR_BLUE st) = blinks st + 1 \<and> blue (handle_key INCR_BLUE st) = MAX_RGB"
proof -
  have r: "MAX_RGB \<le> MAX_RGB / rgb_ratio" "\<not> MAX_RGB < MIN_RGB"
    using rgb_ratio_bounds by (simp_all add: MAX_RGB_def MIN_RGB_def le_divide_eq)
  show "red st = MAX_RGB \<Longrightarrow>
     blinks (handle_key INCR_RED st) = blinks st + 1 \<and> red (handle_key INCR_RED st) = MAX_RGB"
    using r by (simp add: handle_key_cases case_INCR_RED_def Let_def)
  show "green st = MAX_RGB \<Longrightarrow>
     blinks (handle_key INCR_GREEN st) = blinks st + 1 \<and>
     green (handle_key INCR_GREEN st) = MAX_RGB"
    using r by (simp add: handle_key_cases case_INCR_GREEN_def Let_def)
  show "blue st = MAX_RGB \<Longrightarrow>
     blinks (handle_key INCR_BLUE st) = blinks st + 1 \<and> blue (handle_key INCR_BLUE st) = MAX_RGB"
    using r by (simp add: handle_key_cases case_INCR_BLUE_def Let_def)
qed

lemma limit_blinks_decr:
  "red st = 0 \<Longrightarrow>
     blinks (handle_key DECR_RED st) = blinks st + 1 \<and> red (handle_key DECR_RED st) = 0"
  "green st = 0 \<Longrightarrow>
     blinks (handle_key DECR_GREEN st) = blinks st + 1 \<and> green (handle_key DECR_GREEN st) = 0"
  "blue st = 0 \<Longrightarrow>
     blinks (handle_key DECR_BLUE st) = blinks st + 1 \<and> blue (handle_key DECR_BLUE st) = 0"
  by (simp_all add: handle_key_cases case_DECR_RED_def case_DECR_GREEN_def case_DECR_BLUE_def
      Let_def MIN_RGB_def)

subsection \<open>The colour variables stay in range\<close>

lemma hue_of_range:
  assumes "0 \<le> h0" "h0 \<le> 1" "0 \<le> pr" "pr \<le> 255" "0 \<le> pg" "pg \<le> 255" "0 \<le> pb" "pb \<le> 255"
  shows "0 \<le> hue_of h0 pr pg pb \<and> hue_of h0 pr pg pb \<le> 1"
proof -
  define h1 where "h1 = (if pr \<ge> max pg pb
                 then (if pb > pg then pr / MAX_RGB else 2 - pr / MAX_RGB) else h0)"
  define h2 where "h2 = (if pg \<ge> max pr pb
                 then (if pr > pb then 1 + pg / MAX_RGB else 3 - pg / MAX_RGB) else h1)"
  define h3 where "h3 = (if pb \<ge> max pg pr
                 then (if pg > pr then 2 + pb / MAX_RGB else 0 + pr / MAX_RGB) else h2)"
  have h0: "0 \<le> h0" "h0 \<le> 3" using assms by simp_all
  have 1: "0 \<le> h1 \<and> h1 \<le> 3"
    unfolding h1_def MAX_RGB_def using h0 assms by simp
  then have h1: "0 \<le> h1" "h1 \<le> 3" by simp_all
  have 2: "0 \<le> h2 \<and> h2 \<le> 3"
    unfolding h2_def MAX_RGB_def using h1 assms by simp
  then have h2: "0 \<le> h2" "h2 \<le> 3" by simp_all
  have 3: "0 \<le> h3 \<and> h3 \<le> 3"
    unfolding h3_def MAX_RGB_def using h2 assms by simp
  have "hue_of h0 pr pg pb = h3 / 3"
    unfolding hue_of_def Let_def h3_def h2_def h1_def by (rule refl)
  with 3 show ?thesis by simp
qed


lemma channel_range:
  fixes m x :: real
  assumes "0 \<le> m" "m < 85" "m \<le> x" "x \<le> 255 - 2 * m"
  defines "s' \<equiv> (MAX_RGB / 3 - m) / (MAX_RGB / 3)"
  shows "0 \<le> (x - MAX_RGB / 3 + MAX_RGB / 3 * s') / s' \<and>
         (x - MAX_RGB / 3 + MAX_RGB / 3 * s') / s' \<le> 255"
proof -
  have s': "s' = (85 - m) / 85" by (simp add: s'_def MAX_RGB_def)
  have pos: "0 < s'" using assms(2) by (simp add: s')
  have num: "x - MAX_RGB / 3 + MAX_RGB / 3 * s' = x - m"
    by (simp add: s' MAX_RGB_def diff_divide_distrib)
  have "255 * s' = 255 - 3 * m" by (simp add: s')
  then have "x - m \<le> 255 * s'"
    using assms(4) by linarith
  then have "(x - m) / s' \<le> 255"
    using pos by (simp add: pos_divide_le_eq)
  moreover have "0 \<le> (x - m) / s'"
    using pos assms(3) by simp
  ultimately show ?thesis by (simp only: num)
qed

lemma normalise_range:
  assumes "0 \<le> r" "0 \<le> g" "0 \<le> b" "0 < r + g + b" "normalise r g b = (nr, ng, nb)"
  shows "0 \<le> nr \<and> 0 \<le> ng \<and> 0 \<le> nb \<and> nr + ng + nb = 255"
proof -
  define k where "k = MAX_RGB / (r + g + b)"
  have k: "0 < k" using assms(4) by (simp add: k_def MAX_RGB_def)
  from assms(4,5) have n: "nr = r * k" "ng = g * k" "nb = b * k"
    by (simp_all add: normalise_def Let_def k_def)
  define S where "S = r + g + b"
  have S: "0 < S" "k = 255 / S" using assms(4) by (simp_all add: S_def k_def MAX_RGB_def)
  have "nr + ng + nb = S * k" by (simp add: n S_def algebra_simps)
  also have "\<dots> = 255" using S by simp
  finally show ?thesis using k assms(1-3) by (simp add: n)
qed

lemma resaturate_range:
  fixes nr ng nb :: real
  assumes "0 \<le> nr" "0 \<le> ng" "0 \<le> nb" "nr + ng + nb = 255" "0 < sat_of nr ng nb"
    "resaturate (sat_of nr ng nb) nr ng nb = (pr, pg, pb)"
  shows "0 \<le> pr \<and> pr \<le> 255 \<and> 0 \<le> pg \<and> pg \<le> 255 \<and> 0 \<le> pb \<and> pb \<le> 255"
proof -
  define m where "m = min nr (min ng nb)"
  have s': "sat_of nr ng nb = (MAX_RGB / 3 - m) / (MAX_RGB / 3)"
    by (simp add: sat_of_def m_def)
  have m: "0 \<le> m" "m \<le> nr" "m \<le> ng" "m \<le> nb"
    using assms(1-3) by (simp_all add: m_def)
  have m85: "m < 85" using assms(5) by (simp add: s' MAX_RGB_def)
  have up: "nr \<le> 255 - 2 * m" "ng \<le> 255 - 2 * m" "nb \<le> 255 - 2 * m"
    using m assms(4) by linarith+
  note cr = channel_range [OF m(1) m85 m(2) up(1), folded s']
  note cg = channel_range [OF m(1) m85 m(3) up(2), folded s']
  note cb = channel_range [OF m(1) m85 m(4) up(3), folded s']
  have "nr \<le> min ng nb \<or> ng \<le> min nr nb \<or> nb \<le> min ng nr" by (simp add: min_def)
  with assms(6) cr cg cb show ?thesis
    unfolding resaturate_def by (auto split: if_splits)
qed

lemma RGBtoHSB_range:
  assumes "0 \<le> h" "h \<le> 1" "0 \<le> r" "0 \<le> g" "0 \<le> b" "RGBtoHSB h s v r g b = (h', s', v')"
  shows "0 \<le> h' \<and> h' \<le> 1 \<and> 0 \<le> s' \<and> s' \<le> 1 \<and> 0 \<le> v'"
proof -
  obtain nr ng nb where n: "normalise r g b = (nr, ng, nb)" by (cases "normalise r g b")
  obtain pr pg pb where p: "resaturate (sat_of nr ng nb) nr ng nb = (pr, pg, pb)"
    by (cases "resaturate (sat_of nr ng nb) nr ng nb")
  from assms(6) have out: "v' = (r + g + b) / MAX_RGB / 3" "s' = sat_of nr ng nb"
    "h' = (if s' > 0 \<and> v' > 0 then hue_of h pr pg pb else h)"
    by (auto simp: RGBtoHSB_stages n p Let_def)
  have v': "0 \<le> v'" using assms(3-5) by (simp add: out MAX_RGB_def)
  show ?thesis
  proof (cases "0 < r + g + b")
    case True
    note nn = normalise_range [OF assms(3-5) True n]
    then have "0 \<le> min nr (min ng nb)" "min nr (min ng nb) \<le> 85"
      by (simp_all add: min_def)
    then have s': "0 \<le> s'" "s' \<le> 1" by (simp_all add: out sat_of_def MAX_RGB_def)
    have "0 \<le> h' \<and> h' \<le> 1"
    proof (cases "s' > 0 \<and> v' > 0")
      case True
      then have "0 < sat_of nr ng nb" by (simp add: out)
      from resaturate_range [OF _ _ _ _ this p] nn
      have "0 \<le> pr \<and> pr \<le> 255 \<and> 0 \<le> pg \<and> pg \<le> 255 \<and> 0 \<le> pb \<and> pb \<le> 255" by simp
      then show ?thesis
        using hue_of_range [OF assms(1,2), of pr pg pb] True by (simp add: out(3))
    next
      case False
      then show ?thesis using assms(1,2) by (auto simp: out(3))
    qed
    with s' v' show ?thesis by simp
  next
    case False
    with assms(3-5) have z: "r = 0" "g = 0" "b = 0" by linarith+
    then have "normalise r g b = (0, 0, 0)" by (simp add: normalise_def)
    with n have "s' = 1" by (simp add: out sat_of_def MAX_RGB_def)
    moreover have "v' = 0" by (simp add: out z)
    ultimately show ?thesis using assms(1,2) by (simp add: out(3))
  qed
qed


lemma HSBtoRGB_nonneg:
  assumes "0 \<le> s" "s \<le> 1" "0 \<le> v" "HSBtoRGB h s v = (v', r, g, b)"
  shows "0 \<le> v' \<and> 0 \<le> r \<and> 0 \<le> g \<and> 0 \<le> b"
proof -
  from assms(4) obtain dr dg db where
    sum: "dr + dg + db = 255" and
    v': "v' = min v (bright_cap dr dg db)" and
    out: "r = dr * (v' * 3)" "g = dg * (v' * 3)" "b = db * (v' * 3)" and
    d: "dr = desaturate s (red_ramp (hue_phase h))" "dg = desaturate s (green_ramp (hue_phase h))"
       "db = desaturate s (blue_ramp (hue_phase h))"
    by (rule HSBtoRGB_out)
  have 0: "0 \<le> v'" using assms(3) bright_cap_pos [OF sum] by (simp add: v')
  have "0 \<le> dr" "0 \<le> dg" "0 \<le> db"
    unfolding d using assms(1,2)
    by (simp_all add: desaturate_nonneg red_ramp_bounds green_ramp_bounds blue_ramp_bounds)
  with 0 show ?thesis by (simp add: out)
qed

lemma in_range_HSB:
  assumes "0 \<le> hue st" "hue st \<le> 1" "0 \<le> sat st" "sat st \<le> 1" "0 \<le> bright st"
  shows "in_range (call_HSBtoRGB st)"
proof -
  obtain v' r g b where eq: "HSBtoRGB (hue st) (sat st) (bright st) = (v', r, g, b)"
    by (cases "HSBtoRGB (hue st) (sat st) (bright st)")
  from HSBtoRGB_nonneg [OF assms(3-5) eq] assms(1-4) show ?thesis
    by (simp add: in_range_def call_HSBtoRGB_def eq)
qed

lemma in_range_RGB:
  assumes "0 \<le> hue st" "hue st \<le> 1" "0 \<le> red st" "0 \<le> green st" "0 \<le> blue st"
  shows "in_range (call_RGBtoHSB st)"
proof -
  obtain h' s' v' where
    eq: "RGBtoHSB (hue st) (sat st) (bright st) (red st) (green st) (blue st) = (h', s', v')"
    by (cases "RGBtoHSB (hue st) (sat st) (bright st) (red st) (green st) (blue st)")
  from RGBtoHSB_range [OF assms eq] assms(3-5) show ?thesis
    by (simp add: in_range_def call_RGBtoHSB_def eq)
qed

lemma in_range_blink [simp]: "in_range (blink st) = in_range st"
  by (simp add: in_range_def)

lemma in_range_hue_cases:
  assumes "in_range st"
  shows "in_range (case_INIT st)" "in_range (case_VAR_HUE st)" "in_range (case_NEXT_HUE st)"
    "in_range (case_PREV_HUE st)"
proof -
  note r = assms [unfolded in_range_def]
  have "in_range (call_HSBtoRGB (st\<lparr>hue := 0, sat := 1, bright := 1 / 3\<rparr>))"
    by (rule in_range_HSB) simp_all
  then show "in_range (case_INIT st)"
    by (simp add: case_INIT_def Let_def in_range_def)
  show "in_range (case_VAR_HUE st)"
    using assms by (simp add: case_VAR_HUE_def in_range_def)
  show "in_range (case_NEXT_HUE st)"
    unfolding case_NEXT_HUE_def Let_def
    by (rule in_range_HSB) (use r in \<open>simp_all add: HUE_STEPS_def\<close>)
  show "in_range (case_PREV_HUE st)"
    unfolding case_PREV_HUE_def Let_def
    by (rule in_range_HSB) (use r in \<open>simp_all add: HUE_STEPS_def\<close>)
qed

lemma in_range_sat_cases:
  assumes "in_range st"
  shows "in_range (case_DESATURATE st)" "in_range (case_SATURATE st)" "in_range (case_PURE st)"
proof -
  note r = assms [unfolded in_range_def]
  show "in_range (case_DESATURATE st)"
    unfolding case_DESATURATE_def Let_def
    by (rule in_range_HSB) (use r in \<open>simp_all add: SAT_STEPS_def\<close>)
  show "in_range (case_SATURATE st)"
    unfolding case_SATURATE_def Let_def
    by (rule in_range_HSB) (use r in \<open>simp_all add: SAT_STEPS_def\<close>)
  show "in_range (case_PURE st)"
    unfolding case_PURE_def
    by (rule in_range_HSB) (use r in simp_all)
qed

lemma in_range_bright_update: "in_range st \<Longrightarrow> 0 \<le> x \<Longrightarrow> in_range (st\<lparr>bright := x\<rparr>)"
  by (simp add: in_range_def)

lemma in_range_bright_cases:
  assumes "in_range st"
  shows "in_range (case_DIM st)" "in_range (case_BRIGHTEN st)"
proof -
  note r = assms [unfolded in_range_def]
  note q = bright_ratio_bounds
  have m: "0 \<le> MIN_BRIGHT" by (simp add: MIN_BRIGHT_def MIN_RGB_def MAX_RGB_def)
  have "in_range (call_HSBtoRGB (st\<lparr>bright := bright st * bright_ratio\<rparr>))"
    by (rule in_range_HSB) (use r q in simp_all)
  then show "in_range (case_DIM st)"
    using m by (simp add: case_DIM_def Let_def in_range_bright_update)
  have "in_range (call_HSBtoRGB (st\<lparr>bright := MIN_BRIGHT / bright_ratio\<rparr>))"
    by (rule in_range_HSB) (use r q m in simp_all)
  moreover have "in_range (call_HSBtoRGB (st\<lparr>bright := bright st / bright_ratio\<rparr>))"
    by (rule in_range_HSB) (use r q in simp_all)
  ultimately show "in_range (case_BRIGHTEN st)"
    by (simp add: case_BRIGHTEN_def Let_def)
qed


lemma in_range_rgb_cases:
  assumes "in_range st"
  shows "in_range (case_INCR_RED st)" "in_range (case_INCR_GREEN st)"
    "in_range (case_INCR_BLUE st)" "in_range (case_DECR_RED st)"
    "in_range (case_DECR_GREEN st)" "in_range (case_DECR_BLUE st)"
    "in_range (case_WARM_WHITE st)" "in_range (case_BRIGHT_WHITE st)"
    "in_range (case_DAYLIGHT st)"
proof -
  note r = assms [unfolded in_range_def]
  note q = rgb_ratio_bounds
  show "in_range (case_INCR_RED st)"
    unfolding case_INCR_RED_def Let_def
    by (rule in_range_RGB) (use r q in \<open>simp_all add: MIN_RGB_def MAX_RGB_def\<close>)
  show "in_range (case_INCR_GREEN st)"
    unfolding case_INCR_GREEN_def Let_def
    by (rule in_range_RGB) (use r q in \<open>simp_all add: MIN_RGB_def MAX_RGB_def\<close>)
  show "in_range (case_INCR_BLUE st)"
    unfolding case_INCR_BLUE_def Let_def
    by (rule in_range_RGB) (use r q in \<open>simp_all add: MIN_RGB_def MAX_RGB_def\<close>)
  show "in_range (case_DECR_RED st)"
    unfolding case_DECR_RED_def Let_def
    by (rule in_range_RGB) (use r q in \<open>simp_all add: MIN_RGB_def\<close>)
  show "in_range (case_DECR_GREEN st)"
    unfolding case_DECR_GREEN_def Let_def
    by (rule in_range_RGB) (use r q in \<open>simp_all add: MIN_RGB_def\<close>)
  show "in_range (case_DECR_BLUE st)"
    unfolding case_DECR_BLUE_def Let_def
    by (rule in_range_RGB) (use r q in \<open>simp_all add: MIN_RGB_def\<close>)
  show "in_range (case_WARM_WHITE st)"
    unfolding case_WARM_WHITE_def by (rule in_range_RGB) (use r in simp_all)
  show "in_range (case_BRIGHT_WHITE st)"
    unfolding case_BRIGHT_WHITE_def by (rule in_range_RGB) (use r in simp_all)
  show "in_range (case_DAYLIGHT st)"
    unfolding case_DAYLIGHT_def by (rule in_range_RGB) (use r in simp_all)
qed

lemma in_range_handle_key: "in_range st \<Longrightarrow> in_range (handle_key k st)"
  by (simp add: handle_key_def in_range_hue_cases in_range_sat_cases in_range_bright_cases
      in_range_rgb_cases)

lemma in_range_animate:
  assumes "in_range st"
  shows "in_range (animate t st)"
proof -
  note r = assms [unfolded in_range_def]
  have "in_range (call_HSBtoRGB
          (if 1 < hue st + 1 / real_of_int HUE_STEPS
           then st\<lparr>hueStepTimer := t, hue := 0\<rparr>
           else st\<lparr>hueStepTimer := t, hue := hue st + 1 / real_of_int HUE_STEPS\<rparr>))"
    by (rule in_range_HSB) (use r in \<open>simp_all add: HUE_STEPS_def\<close>)
  moreover have "in_range (st\<lparr>hueStepTimer := t\<rparr>)"
    using assms by (simp add: in_range_def)
  ultimately show ?thesis
    using r assms by (auto simp: animate_def Let_def split: if_splits)
qed

lemma in_range_keys:
  "in_range (st\<lparr>repeatCount := c\<rparr>) = in_range st" "in_range (st\<lparr>lastKey := k\<rparr>) = in_range st"
  "in_range (st\<lparr>keyTimer := t\<rparr>) = in_range st" "in_range (st\<lparr>fired := ks\<rparr>) = in_range st"
  by (simp_all add: in_range_def)

lemma in_range_loop:
  assumes "in_range st"
  shows "in_range (loop t pending st)"
proof -
  have 1: "in_range (idle_check t st)"
    using assms by (simp add: idle_check_def in_range_keys)
  have 2: "in_range (on_frame t f st')" if "in_range st'" for f st'
    using that by (simp add: on_frame_def Let_def in_range_keys in_range_handle_key)
  show ?thesis
    unfolding loop_def Let_def using 1 2 by (cases pending) (simp_all add: in_range_animate)
qed

lemma in_range_setup: "in_range sketch_setup"
  by (simp add: in_range_def sketch_setup_colour)

lemma reachable_in_range: "reachable st \<Longrightarrow> in_range st"
  by (induction rule: reachable.induct) (simp_all add: in_range_setup in_range_loop)

text \<open>
  In exact arithmetic hue lies in \<open>[0, 1]\<close> in every state the 2017 sketch can reach, so the
  branch guarded by \<^verbatim>\<open>hue > 1.0 && hue < 2.0\<close> is never taken there: each hue step is the
  single one, followed by the test that wraps hue around. In binary32 arithmetic the
  invariant is lost, see \<open>hue_overshoots\<close> in the last section.
\<close>

lemma hue_steps_exact:
  assumes "reachable st"
  shows "0 \<le> hue st \<and> hue st \<le> 1 \<and> \<not> (hue st > 1 \<and> hue st < 2) \<and>
    hue (handle_key NEXT_HUE st) = (if hue st + 1 / 400 > 1 then 0 else hue st + 1 / 400) \<and>
    hue (handle_key PREV_HUE st) = (if hue st - 1 / 400 < 0 then 1 else hue st - 1 / 400) \<and>
    (variableHue st \<and> now - hueStepTimer st > 100 \<longrightarrow>
       hue (animate now st) = (if hue st + 1 / 400 > 1 then 0 else hue st + 1 / 400))"
proof -
  from reachable_in_range [OF assms] have r: "0 \<le> hue st" "hue st \<le> 1"
    by (simp_all add: in_range_def)
  have "hue (handle_key NEXT_HUE st) = (if hue st + 1 / 400 > 1 then 0 else hue st + 1 / 400)"
    using r by (simp add: handle_key_cases case_NEXT_HUE_def Let_def HUE_STEPS_def)
  moreover
  have "hue (handle_key PREV_HUE st) = (if hue st - 1 / 400 < 0 then 1 else hue st - 1 / 400)"
    using r by (simp add: handle_key_cases case_PREV_HUE_def Let_def HUE_STEPS_def)
  moreover
  have "hue (animate now st) = (if hue st + 1 / 400 > 1 then 0 else hue st + 1 / 400)"
    if "variableHue st" "now - hueStepTimer st > 100"
    using r that by (simp add: animate_def Let_def HUE_STEPS_def)
  ultimately show ?thesis using r by simp
qed

lemma limit_blinks_brighten:
  assumes "MIN_BRIGHT \<le> bright st"
    "fst (HSBtoRGB (hue st) (sat st) (bright st / bright_ratio)) < bright st / bright_ratio"
  shows "blinks (handle_key BRIGHTEN st) = blinks st + 1"
proof -
  obtain v' r g b where
    eq: "HSBtoRGB (hue st) (sat st) (bright st / bright_ratio) = (v', r, g, b)"
    by (cases "HSBtoRGB (hue st) (sat st) (bright st / bright_ratio)")
  from assms(2) have "v' < bright st / bright_ratio" by (simp add: eq)
  with HSBtoRGB_effective_bright [OF eq] have "max r (max g b) = MAX_RGB" by blast
  then have "r = MAX_RGB \<or> g = MAX_RGB \<or> b = MAX_RGB" by (auto simp: max_def split: if_splits)
  then show ?thesis
    using assms(1) by (auto simp: handle_key_cases case_BRIGHTEN_def Let_def call_HSBtoRGB_def eq)
qed

section \<open>Properties of the PWM interrupts of v. 2.1\<close>

lemma counter_mod8: "unat ((x + 1) AND (7::16 word)) = (unat x + 1) mod 8"
proof -
  have m: "(7 :: 16 word) = mask 3" by (simp add: mask_eq_exp_minus_1)
  have "unat ((x + 1) AND (7::16 word)) = unat (take_bit 3 (x + 1))"
    by (simp only: m take_bit_eq_mask)
  also have "\<dots> = unat (x + 1) mod 8"
    by (simp add: unsigned_take_bit_eq take_bit_eq_mod unat_mod)
  also have "\<dots> = ((unat x + 1) mod 65536) mod 8"
    by (simp add: unat_word_ariths)
  also have "\<dots> = (unat x + 1) mod 8"
    by (rule mod_mod_cancel) simp
  finally show ?thesis .
qed

lemma sint_nonneg_uint:
  fixes p :: "16 word"
  assumes "0 \<le> sint p"
  shows "sint p = uint p"
proof -
  have s: "sint p = signed_take_bit 15 (uint p)" by (simp add: sint_uint)
  show ?thesis
  proof (cases "uint p < 2 ^ 15")
    case True
    have "- (2 ^ 15) \<le> uint p"
      by (rule order_trans [of _ 0]) simp_all
    with True have "signed_take_bit 15 (uint p) = uint p"
      by (intro signed_take_bit_int_eq_self)
    then show ?thesis by (simp only: s)
  next
    case False
    then have "2 ^ 15 \<le> uint p" by simp
    then have "signed_take_bit 15 (uint p) \<le> uint p - 2 ^ 16"
      using signed_take_bit_int_less_eq [of 15 "uint p"] by simp
    moreover have "uint p < 2 ^ 16" using uint_bounded [of p] by simp
    ultimately have "signed_take_bit 15 (uint p) < 0" by linarith
    with assms show ?thesis by (simp only: s)
  qed
qed

lemma unsigned_compare:
  fixes c p :: "16 word"
  assumes "0 \<le> sint p"
  shows "c \<le> p \<longleftrightarrow> uint c \<le> sint p"
  by (simp add: sint_nonneg_uint [OF assms] word_le_def)

lemma byte_int_floor: "0 \<le> r \<Longrightarrow> r < 256 \<Longrightarrow> uint (byte_int r) = \<lfloor>r\<rfloor>"
proof -
  assume r: "0 \<le> r" "r < 256"
  then have "0 \<le> \<lfloor>r\<rfloor>" "\<lfloor>r\<rfloor> < 256" by (simp_all add: floor_less_iff)
  then show ?thesis using r by (simp add: byte_int_def uint_word_of_int)
qed

text \<open>
  Each overflow interrupt advances its sub-cycle counter modulo 8. When the new count is at
  most \<^verbatim>\<open>pwmCyclesON\<close> in the unsigned comparison of C, the compare registers of its
  channels receive \<^verbatim>\<open>byte(int(...))\<close> of the channel values, otherwise 0. For a
  \<^verbatim>\<open>pwmCyclesON\<close> that is not negative the unsigned comparison is the comparison of the
  numbers. For a channel value in \<open>[0, 256)\<close> the register receives its integer part.
\<close>

lemma overflow_interrupt_unsigned:
  "pwmCounter1 (TIMER1_OVF_vect r g st) = (pwmCounter1 st + 1) AND 7 \<and>
   unat (pwmCounter1 (TIMER1_OVF_vect r g st)) = (unat (pwmCounter1 st) + 1) mod 8 \<and>
   (if pwmCounter1 (TIMER1_OVF_vect r g st) \<le> pwmCyclesON st
    then OCR1A (TIMER1_OVF_vect r g st) = ucast (byte_int r) \<and>
         OCR1B (TIMER1_OVF_vect r g st) = ucast (byte_int g)
    else OCR1A (TIMER1_OVF_vect r g st) = 0 \<and> OCR1B (TIMER1_OVF_vect r g st) = 0) \<and>
   pwmCounter2 (TIMER2_OVF_vect b st) = (pwmCounter2 st + 1) AND 7 \<and>
   unat (pwmCounter2 (TIMER2_OVF_vect b st)) = (unat (pwmCounter2 st) + 1) mod 8 \<and>
   (if pwmCounter2 (TIMER2_OVF_vect b st) \<le> pwmCyclesON st
    then OCR2A (TIMER2_OVF_vect b st) = byte_int b
    else OCR2A (TIMER2_OVF_vect b st) = 0) \<and>
   (0 \<le> sint (pwmCyclesON st) \<longrightarrow>
      (pwmCounter1 (TIMER1_OVF_vect r g st) \<le> pwmCyclesON st \<longleftrightarrow>
         uint (pwmCounter1 (TIMER1_OVF_vect r g st)) \<le> sint (pwmCyclesON st)) \<and>
      (pwmCounter2 (TIMER2_OVF_vect b st) \<le> pwmCyclesON st \<longleftrightarrow>
         uint (pwmCounter2 (TIMER2_OVF_vect b st)) \<le> sint (pwmCyclesON st))) \<and>
   (0 \<le> b \<and> b < 256 \<longrightarrow> uint (byte_int b) = \<lfloor>b\<rfloor>)"
proof -
  have c1: "pwmCounter1 (TIMER1_OVF_vect r g st) = (pwmCounter1 st + 1) AND 7"
    and c2: "pwmCounter2 (TIMER2_OVF_vect b st) = (pwmCounter2 st + 1) AND 7"
    by (simp_all add: TIMER1_OVF_vect_def TIMER2_OVF_vect_def Let_def)
  have o1: "if pwmCounter1 (TIMER1_OVF_vect r g st) \<le> pwmCyclesON st
    then OCR1A (TIMER1_OVF_vect r g st) = ucast (byte_int r) \<and>
         OCR1B (TIMER1_OVF_vect r g st) = ucast (byte_int g)
    else OCR1A (TIMER1_OVF_vect r g st) = 0 \<and> OCR1B (TIMER1_OVF_vect r g st) = 0"
    by (simp add: TIMER1_OVF_vect_def Let_def)
  have o2: "if pwmCounter2 (TIMER2_OVF_vect b st) \<le> pwmCyclesON st
    then OCR2A (TIMER2_OVF_vect b st) = byte_int b
    else OCR2A (TIMER2_OVF_vect b st) = 0"
    by (simp add: TIMER2_OVF_vect_def Let_def)
  show ?thesis
    using o1 o2 by (simp add: c1 c2 counter_mod8 unsigned_compare byte_int_floor)
qed

text \<open>
  Claim C8 fails for a negative \<^verbatim>\<open>pwmCyclesON\<close>. The counter is an \<^verbatim>\<open>unsigned int\<close>, so C
  converts the \<^verbatim>\<open>int pwmCyclesON\<close> to unsigned before it compares: \<open>-1\<close>, which
  \<^verbatim>\<open>setup()\<close> reads from an EEPROM that was never written, compares as 65535. The counter
  (1 after the first interrupt) is then not less than or equal to the level \<open>-1\<close>, and yet
  the registers receive the channel values instead of 0; the same holds for every count.
\<close>

theorem overflow_interrupt_negative_level:
  "sint (pwmCyclesON erased_timers) = - 1 \<and>
   pwmCounter1 (TIMER1_OVF_vect 200 100 erased_timers) = 1 \<and>
   \<not> uint (pwmCounter1 (TIMER1_OVF_vect 200 100 erased_timers))
       \<le> sint (pwmCyclesON erased_timers) \<and>
   OCR1A (TIMER1_OVF_vect 200 100 erased_timers) = 200 \<and>
   OCR1B (TIMER1_OVF_vect 200 100 erased_timers) = 100 \<and>
   pwmCounter2 (TIMER2_OVF_vect 50 erased_timers) = 1 \<and>
   \<not> uint (pwmCounter2 (TIMER2_OVF_vect 50 erased_timers))
       \<le> sint (pwmCyclesON erased_timers) \<and>
   OCR2A (TIMER2_OVF_vect 50 erased_timers) = 50"
  by (simp add: erased_timers_def TIMER1_OVF_vect_def TIMER2_OVF_vect_def Let_def byte_int_def)

lemma negative_level_always_on:
  assumes "pwmCyclesON st = - 1"
  shows "OCR1A (TIMER1_OVF_vect r g st) = ucast (byte_int r)"
    "OCR1B (TIMER1_OVF_vect r g st) = ucast (byte_int g)"
    "OCR2A (TIMER2_OVF_vect b st) = byte_int b"
    "\<not> uint (pwmCounter1 (TIMER1_OVF_vect r g st)) \<le> sint (pwmCyclesON st)"
    "\<not> uint (pwmCounter2 (TIMER2_OVF_vect b st)) \<le> sint (pwmCyclesON st)"
proof -
  show "OCR1A (TIMER1_OVF_vect r g st) = ucast (byte_int r)"
    "OCR1B (TIMER1_OVF_vect r g st) = ucast (byte_int g)"
    "OCR2A (TIMER2_OVF_vect b st) = byte_int b"
    using assms by (simp_all add: TIMER1_OVF_vect_def TIMER2_OVF_vect_def Let_def)
  have level: "sint (pwmCyclesON st) = - 1" using assms by simp
  have "0 \<le> uint (pwmCounter1 (TIMER1_OVF_vect r g st))"
    "0 \<le> uint (pwmCounter2 (TIMER2_OVF_vect b st))" by simp_all
  then show "\<not> uint (pwmCounter1 (TIMER1_OVF_vect r g st)) \<le> sint (pwmCyclesON st)"
    "\<not> uint (pwmCounter2 (TIMER2_OVF_vect b st)) \<le> sint (pwmCyclesON st)"
    unfolding level by linarith+
qed

section \<open>The sketch in binary32 arithmetic\<close>

subsection \<open>Evaluation\<close>

lemma ilog2_numeral:
  "ilog2 (numeral k) x = (if 2 \<le> x then ilog2 (pred_numeral k) (x / 2) + 1
                          else if x < 1 then ilog2 (pred_numeral k) (2 * x) - 1 else 0)"
  by (simp add: numeral_eq_Suc)

lemmas f32_eval = rnd_def expo_def rne_def pow2_def round32_def ilog2_numeral Let_def
  max32_def min32_def fle_def MAX_RGB32_def MIN_RGB32_def MIN_BRIGHT32_def

lemmas keys32_eval = handle_key32_def call_HSBtoRGB32_def call_RGBtoHSB32_def blink32_def
  case_NEXT_HUE32_def case_PREV_HUE32_def kickstart32_def HSBtoRGB_f32_def RGBtoHSB_f32_def
  step_ratio32_def HUE_STEPS_def SAT_STEPS_def MIN_STEP_TIME_def key_codes

lemma setup32_value:
  "setup32 = \<lparr>hue32 = Val 0, sat32 = Val 1, bright32 = Val (11184811 / 33554432),
     hueStepTime32 = 100, hueStepTimer32 = 0,
     red32 = Val 0, green32 = Val 0, blue32 = Val 255, variableHue32 = False, blinks32 = 0\<rparr>"
  by (simp add: setup32_def keys32_eval f32_eval cong: let_weak_cong prod.case_cong_weak)

subsection \<open>The ceiling of the channels\<close>

lemma HSBtoRGB_f32_over:
  "HSBtoRGB_f32 (Val 1 / Val 400) (Val (1 / 2)) (Val 1) =
     (Val (8436061 / 16777216), Val (4296089 / 65536), Val (2100777 / 32768),
      Val (16711681 / 65536))"
  by (simp add: HSBtoRGB_f32_def f32_eval cong: let_weak_cong prod.case_cong_weak)

lemma press_red_pure:
  "press32 [INCR_RED, PURE] setup32 =
     \<lparr>hue32 = Val (11184811 / 8589934592), sat32 = Val 1,
      bright32 = Val (11228673 / 33554432), hueStepTime32 = 100, hueStepTimer32 = 0,
      red32 = Val 1, green32 = Val 0,
      blue32 = Val (16711681 / 65536), variableHue32 = False, blinks32 = 0\<rparr>"
  by (simp add: setup32_value keys32_eval f32_eval cong: let_weak_cong prod.case_cong_weak)

lemma HSBtoRGB_f32_yellow:
  "HSBtoRGB_f32 (Val (1 / 2)) (Val (1 / 2)) (Val 1) =
     (Val (13421773 / 16777216), Val (16711681 / 65536), Val (16711681 / 65536),
      Val (13369345 / 131072))"
  by (simp add: HSBtoRGB_f32_def f32_eval cong: let_weak_cong prod.case_cong_weak)

lemma mean_yellow:
  "(Val (16711681 / 65536) + Val (16711681 / 65536) + Val (13369345 / 131072))
     / MAX_RGB32 / Val 3 = Val (13421775 / 16777216)"
  by (simp add: f32_eval)

text \<open>
  Claim C4 fails on the sketch by the rounding of its arithmetic. \<^verbatim>\<open>HSBtoRGB\<close> bounds the
  brightness by \<^verbatim>\<open>MAX_RGB / max(red, max(green, blue)) / 3.0\<close> and then multiplies each
  channel by \<^verbatim>\<open>bright * 3.0\<close>; in binary32 the product of the largest channel need not be
  255 again. Called with hue 1/400 (one hue step), saturation 1/2 and brightness 1 it
  returns blue = 255 + 1/65536, above the ceiling; the keys \<^verbatim>\<open>INCR_RED\<close> and \<^verbatim>\<open>PURE\<close>
  pressed after \<^verbatim>\<open>setup()\<close> leave the same value in the global \<^verbatim>\<open>blue\<close>. Called with hue
  1/2, saturation 1/2 and brightness 1 it returns red = green = 255 + 1/65536 and writes
  back a brightness that is neither the mean channel fraction of the triple nor what
  \<^verbatim>\<open>(red + green + blue) / MAX_RGB / 3.0\<close> gives in binary32.
\<close>

theorem HSBtoRGB_f32_exceeds_ceiling:
  "HSBtoRGB_f32 (Val 1 / Val 400) (Val (1 / 2)) (Val 1) =
     (Val (8436061 / 16777216), Val (4296089 / 65536), Val (2100777 / 32768),
      Val (16711681 / 65536)) \<and>
   MAX_RGB32 < Val (16711681 / 65536) \<and>
   blue32 (press32 [INCR_RED, PURE] setup32) = Val (16711681 / 65536) \<and>
   HSBtoRGB_f32 (Val (1 / 2)) (Val (1 / 2)) (Val 1) =
     (Val (13421773 / 16777216), Val (16711681 / 65536), Val (16711681 / 65536),
      Val (13369345 / 131072)) \<and>
   (Val (16711681 / 65536) + Val (16711681 / 65536) + Val (13369345 / 131072))
     / MAX_RGB32 / Val 3 = Val (13421775 / 16777216) \<and>
   (16711681 / 65536 + 16711681 / 65536 + 13369345 / 131072) / 255 / 3
     \<noteq> (13421773 / 16777216 :: real)"
  unfolding HSBtoRGB_f32_over press_red_pure HSBtoRGB_f32_yellow mean_yellow
  by (simp add: MAX_RGB32_def)

subsection \<open>The range of hue\<close>

lemma overshoot_step_1:
  "handle_key32 DAYLIGHT
     \<lparr>hue32 = Val 0, sat32 = Val 1,
      bright32 = Val (11184811 / 33554432), hueStepTime32 = 100, hueStepTimer32 = 0,
      red32 = Val 0, green32 = Val 0,
      blue32 = Val 255, variableHue32 = False, blinks32 = 0\<rparr> =
     \<lparr>hue32 = Val (2796205 / 16777216), sat32 = Val (10008239 / 268435456),
      bright32 = Val (16470181 / 16777216), hueStepTime32 = 100, hueStepTimer32 = 0,
      red32 = Val 255, green32 = Val 241,
      blue32 = Val 255, variableHue32 = False, blinks32 = 0\<rparr>"
  by (simp add: keys32_eval f32_eval cong: let_weak_cong prod.case_cong_weak)

lemma overshoot_step_2:
  "handle_key32 INCR_GREEN
     \<lparr>hue32 = Val (2796205 / 16777216), sat32 = Val (10008239 / 268435456),
      bright32 = Val (16470181 / 16777216), hueStepTime32 = 100, hueStepTimer32 = 0,
      red32 = Val 255, green32 = Val 241,
      blue32 = Val 255, variableHue32 = False, blinks32 = 0\<rparr> =
     \<lparr>hue32 = Val (2796205 / 16777216), sat32 = Val 0,
      bright32 = Val 1, hueStepTime32 = 100, hueStepTimer32 = 0,
      red32 = Val 255, green32 = Val 255,
      blue32 = Val 255, variableHue32 = False, blinks32 = 1\<rparr>"
  by (simp add: keys32_eval f32_eval cong: let_weak_cong prod.case_cong_weak)

lemma overshoot_step_3:
  "handle_key32 DECR_RED
     \<lparr>hue32 = Val (2796205 / 16777216), sat32 = Val 0,
      bright32 = Val 1, hueStepTime32 = 100, hueStepTimer32 = 0,
      red32 = Val 255, green32 = Val 255,
      blue32 = Val 255, variableHue32 = False, blinks32 = 1\<rparr> =
     \<lparr>hue32 = Val (13981013 / 16777216), sat32 = Val (16265553 / 268435456),
      bright32 = Val (16283865 / 16777216), hueStepTime32 = 100, hueStepTimer32 = 0,
      red32 = Val (476169 / 2048), green32 = Val 255,
      blue32 = Val 255, variableHue32 = False, blinks32 = 1\<rparr>"
  by (simp add: keys32_eval f32_eval cong: let_weak_cong prod.case_cong_weak)

lemma overshoot_step_4:
  "handle_key32 DIM
     \<lparr>hue32 = Val (13981013 / 16777216), sat32 = Val (16265553 / 268435456),
      bright32 = Val (16283865 / 16777216), hueStepTime32 = 100, hueStepTimer32 = 0,
      red32 = Val (476169 / 2048), green32 = Val 255,
      blue32 = Val 255, variableHue32 = False, blinks32 = 1\<rparr> =
     \<lparr>hue32 = Val (13981013 / 16777216), sat32 = Val (16265553 / 268435456),
      bright32 = Val (7423667 / 8388608), hueStepTime32 = 100, hueStepTimer32 = 0,
      red32 = Val (1736649 / 8192), green32 = Val (476169 / 2048),
      blue32 = Val (476169 / 2048), variableHue32 = False, blinks32 = 1\<rparr>"
  by (simp add: keys32_eval f32_eval cong: let_weak_cong prod.case_cong_weak)

lemma overshoot_step_5:
  "handle_key32 DIM
     \<lparr>hue32 = Val (13981013 / 16777216), sat32 = Val (16265553 / 268435456),
      bright32 = Val (7423667 / 8388608), hueStepTime32 = 100, hueStepTimer32 = 0,
      red32 = Val (1736649 / 8192), green32 = Val (476169 / 2048),
      blue32 = Val (476169 / 2048), variableHue32 = False, blinks32 = 1\<rparr> =
     \<lparr>hue32 = Val (13981013 / 16777216), sat32 = Val (16265553 / 268435456),
      bright32 = Val (13537531 / 16777216), hueStepTime32 = 100, hueStepTimer32 = 0,
      red32 = Val (6333781 / 32768), green32 = Val (13893193 / 65536),
      blue32 = Val (13893193 / 65536), variableHue32 = False, blinks32 = 1\<rparr>"
  by (simp add: keys32_eval f32_eval cong: let_weak_cong prod.case_cong_weak)

lemma overshoot_step_6:
  "handle_key32 DIM
     \<lparr>hue32 = Val (13981013 / 16777216), sat32 = Val (16265553 / 268435456),
      bright32 = Val (13537531 / 16777216), hueStepTime32 = 100, hueStepTimer32 = 0,
      red32 = Val (6333781 / 32768), green32 = Val (13893193 / 65536),
      blue32 = Val (13893193 / 65536), variableHue32 = False, blinks32 = 1\<rparr> =
     \<lparr>hue32 = Val (13981013 / 16777216), sat32 = Val (16265553 / 268435456),
      bright32 = Val (12343277 / 16777216), hueStepTime32 = 100, hueStepTimer32 = 0,
      red32 = Val (1443757 / 8192), green32 = Val (3166891 / 16384),
      blue32 = Val (3166891 / 16384), variableHue32 = False, blinks32 = 1\<rparr>"
  by (simp add: keys32_eval f32_eval cong: let_weak_cong prod.case_cong_weak)

lemma overshoot_step_7:
  "handle_key32 DIM
     \<lparr>hue32 = Val (13981013 / 16777216), sat32 = Val (16265553 / 268435456),
      bright32 = Val (12343277 / 16777216), hueStepTime32 = 100, hueStepTimer32 = 0,
      red32 = Val (1443757 / 8192), green32 = Val (3166891 / 16384),
      blue32 = Val (3166891 / 16384), variableHue32 = False, blinks32 = 1\<rparr> =
     \<lparr>hue32 = Val (13981013 / 16777216), sat32 = Val (16265553 / 268435456),
      bright32 = Val (11254377 / 16777216), hueStepTime32 = 100, hueStepTimer32 = 0,
      red32 = Val (2632783 / 16384), green32 = Val (1443757 / 8192),
      blue32 = Val (1443757 / 8192), variableHue32 = False, blinks32 = 1\<rparr>"
  by (simp add: keys32_eval f32_eval cong: let_weak_cong prod.case_cong_weak)

lemma overshoot_step_8:
  "handle_key32 DIM
     \<lparr>hue32 = Val (13981013 / 16777216), sat32 = Val (16265553 / 268435456),
      bright32 = Val (11254377 / 16777216), hueStepTime32 = 100, hueStepTimer32 = 0,
      red32 = Val (2632783 / 16384), green32 = Val (1443757 / 8192),
      blue32 = Val (1443757 / 8192), variableHue32 = False, blinks32 = 1\<rparr> =
     \<lparr>hue32 = Val (13981013 / 16777216), sat32 = Val (16265553 / 268435456),
      bright32 = Val (5130769 / 8388608), hueStepTime32 = 100, hueStepTimer32 = 0,
      red32 = Val (600131 / 4096), green32 = Val (10531133 / 65536),
      blue32 = Val (10531133 / 65536), variableHue32 = False, blinks32 = 1\<rparr>"
  by (simp add: keys32_eval f32_eval cong: let_weak_cong prod.case_cong_weak)

lemma overshoot_step_9:
  "handle_key32 DECR_GREEN
     \<lparr>hue32 = Val (13981013 / 16777216), sat32 = Val (16265553 / 268435456),
      bright32 = Val (5130769 / 8388608), hueStepTime32 = 100, hueStepTimer32 = 0,
      red32 = Val (600131 / 4096), green32 = Val (10531133 / 65536),
      blue32 = Val (10531133 / 65536), variableHue32 = False, blinks32 = 1\<rparr> =
     \<lparr>hue32 = Val (8388611 / 8388608), sat32 = Val (8386873 / 268435456),
      bright32 = Val (9950645 / 16777216), hueStepTime32 = 100, hueStepTimer32 = 0,
      red32 = Val (600131 / 4096), green32 = Val (9602097 / 65536),
      blue32 = Val (10531133 / 65536), variableHue32 = False, blinks32 = 1\<rparr>"
  by (simp add: keys32_eval f32_eval cong: let_weak_cong prod.case_cong_weak)

lemma overshoot_prev:
  "handle_key32 PREV_HUE
     \<lparr>hue32 = Val (8388611 / 8388608), sat32 = Val (8386873 / 268435456),
      bright32 = Val (9950645 / 16777216), hueStepTime32 = 100, hueStepTimer32 = 0,
      red32 = Val (600131 / 4096), green32 = Val (9602097 / 65536),
      blue32 = Val (10531133 / 65536), variableHue32 = False, blinks32 = 1\<rparr> =
     \<lparr>hue32 = Val (2086667 / 2097152), sat32 = Val (8386873 / 268435456),
      bright32 = Val (9950645 / 16777216), hueStepTime32 = 100, hueStepTimer32 = 0,
      red32 = Val (9602097 / 65536), green32 = Val (9616031 / 65536),
      blue32 = Val (10517199 / 65536), variableHue32 = False, blinks32 = 1\<rparr>"
  by (simp add: keys32_eval f32_eval cong: let_weak_cong prod.case_cong_weak)

lemma overshoot_next:
  "handle_key32 NEXT_HUE
     \<lparr>hue32 = Val (8388611 / 8388608), sat32 = Val (8386873 / 268435456),
      bright32 = Val (9950645 / 16777216), hueStepTime32 = 100, hueStepTimer32 = 0,
      red32 = Val (600131 / 4096), green32 = Val (9602097 / 65536),
      blue32 = Val (10531133 / 65536), variableHue32 = False, blinks32 = 1\<rparr> =
     \<lparr>hue32 = Val 0, sat32 = Val (8386873 / 268435456),
      bright32 = Val (9950645 / 16777216), hueStepTime32 = 100, hueStepTimer32 = 0,
      red32 = Val (9602097 / 65536), green32 = Val (9602097 / 65536),
      blue32 = Val (10531133 / 65536), variableHue32 = False, blinks32 = 1\<rparr>"
  by (simp add: keys32_eval f32_eval cong: let_weak_cong prod.case_cong_weak)

lemma overshoot_state:
  "press32 overshoot_keys setup32 =
     \<lparr>hue32 = Val (8388611 / 8388608), sat32 = Val (8386873 / 268435456),
      bright32 = Val (9950645 / 16777216), hueStepTime32 = 100, hueStepTimer32 = 0,
      red32 = Val (600131 / 4096), green32 = Val (9602097 / 65536),
      blue32 = Val (10531133 / 65536), variableHue32 = False, blinks32 = 1\<rparr>"
  by (simp only: overshoot_keys_def press32.simps setup32_value overshoot_step_1 overshoot_step_2 overshoot_step_3 overshoot_step_4 overshoot_step_5 overshoot_step_6 overshoot_step_7 overshoot_step_8 overshoot_step_9)

text \<open>
  Claim C10 fails on the sketch by the rounding of its arithmetic. \<^verbatim>\<open>RGBtoHSB\<close> divides the
  hue it has read off the largest channel by 3, and that channel, scaled and resaturated in
  binary32, can come out above 255. After \<^verbatim>\<open>setup()\<close> and the nine keys of
  \<open>overshoot_keys\<close> the global \<^verbatim>\<open>hue\<close> is \<open>1 + 3 / 2 ^ 23\<close>, outside the range
  \<^verbatim>\<open>0.0 <= hue <= 1.0\<close> that the comments of the sketch promise. The branch guarded by
  \<^verbatim>\<open>hue > 1.0 && hue < 2.0\<close> is then taken: the next PrevHue press subtracts the doubled
  step, not the single one, and the next NextHue press adds the doubled step and wraps.
\<close>

theorem hue_overshoots:
  "hue32 (press32 overshoot_keys setup32) = Val (8388611 / 8388608) \<and>
   Val 1 < hue32 (press32 overshoot_keys setup32) \<and>
   hue32 (press32 overshoot_keys setup32) < Val 2 \<and>
   hue32 (handle_key32 PREV_HUE (press32 overshoot_keys setup32)) =
     hue32 (press32 overshoot_keys setup32) - Val 1 / Val 400 * Val 2 \<and>
   hue32 (handle_key32 PREV_HUE (press32 overshoot_keys setup32)) = Val (2086667 / 2097152) \<and>
   hue32 (press32 overshoot_keys setup32) - Val 1 / Val 400 = Val (16735279 / 16777216) \<and>
   hue32 (handle_key32 NEXT_HUE (press32 overshoot_keys setup32)) = Val 0"
  unfolding overshoot_state overshoot_prev overshoot_next
  by (simp add: f32_eval)

subsection \<open>The error of one operation\<close>

text \<open>
  Rounding to binary32 moves a real number by at most \<open>2 ^ -24\<close> of its magnitude, or of
  \<open>2 ^ -126\<close> below the normal range, and keeps its sign. An operation on two finite values
  whose exact result is far below \<open>2 ^ 128\<close> is the rounding of that result.
\<close>

lemma rne_error: "\<bar>real_of_int (rne z) - z\<bar> \<le> 1 / 2"
  unfolding rne_def Let_def by (simp; linarith)

lemma pow2_powi: "pow2 k = 2 powi k"
  by (simp add: pow2_def power_int_def inverse_eq_divide power_one_over)

lemma ilog2_le: "0 < y \<Longrightarrow> 2 powi (ilog2 n y) \<le> max y (2 powi (- int n))"
proof (induction n arbitrary: y)
  case 0
  then show ?case by simp
next
  case (Suc n)
  show ?case
  proof (cases "2 \<le> y")
    case True
    from Suc.prems have "0 < y / 2" by simp
    from Suc.IH [OF this] have "2 powi (ilog2 n (y / 2)) \<le> max (y / 2) (2 powi (- int n))" .
    moreover have "(2::real) powi (- int n) \<le> 1" by (simp add: power_int_def power_le_one_iff inverse_le_1_iff)
    ultimately have "2 powi (ilog2 n (y / 2)) \<le> y / 2" using True by (simp add: max_def split: if_splits)
    then have "2 powi (ilog2 n (y / 2) + 1) \<le> y" by (simp add: power_int_add)
    then show ?thesis using True by (simp add: max_def)
  next
    case False
    show ?thesis
    proof (cases "y < 1")
      case True
      from Suc.prems have "0 < 2 * y" by simp
      from Suc.IH [OF this] have "2 powi (ilog2 n (2 * y)) \<le> max (2 * y) (2 powi (- int n))" .
      then have "2 powi (ilog2 n (2 * y)) / 2 \<le> max y (2 powi (- int n) / 2)"
        by (simp add: max_def split: if_splits)
      moreover have "(2::real) powi (ilog2 n (2 * y) - 1) = 2 powi (ilog2 n (2 * y)) / 2"
        by (simp add: power_int_diff)
      moreover have "(2::real) powi (- int (Suc n)) = 2 powi (- int n) / 2"
        by (simp add: power_int_def field_simps nat_add_distrib)
      ultimately show ?thesis using True False by simp
    next
      case F: False
      then show ?thesis using False by (simp add: max_def)
    qed
  qed
qed


lemma expo_le:
  assumes "x \<noteq> 0"
  shows "2 powi (expo x) \<le> max \<bar>x\<bar> (1 / 2 ^ 126)"
proof -
  have a: "0 < \<bar>x\<bar>" using assms by simp
  have "2 powi (ilog2 130 \<bar>x\<bar>) \<le> max \<bar>x\<bar> (2 powi (- int 130))"
    by (rule ilog2_le [OF a])
  also have "\<dots> \<le> max \<bar>x\<bar> (1 / 2 ^ 126)"
    by (simp add: power_int_def field_simps)
  finally have b: "2 powi (ilog2 130 \<bar>x\<bar>) \<le> max \<bar>x\<bar> (1 / 2 ^ 126)" .
  have c: "(2::real) powi (- 126) = 1 / 2 ^ 126"
    by (simp add: power_int_def field_simps)
  show ?thesis
  proof (cases "- 126 \<le> ilog2 130 \<bar>x\<bar>")
    case True
    then show ?thesis using b by (simp add: expo_def max_absorb2)
  next
    case False
    then have "expo x = - 126" by (simp add: expo_def)
    then show ?thesis using c by simp
  qed
qed

lemma rnd_error: "\<bar>rnd x - x\<bar> \<le> max \<bar>x\<bar> (1 / 2 ^ 126) / 2 ^ 24"
proof (cases "x = 0")
  case True
  then show ?thesis by (simp add: rnd_def)
next
  case False
  define q where "q = pow2 (expo x - 23)"
  have q: "q = 2 powi (expo x) / 2 ^ 23"
    by (simp add: q_def pow2_powi power_int_diff)
  have qpos: "0 < q" by (simp add: q)
  have r: "rnd x = of_int (rne (x / q)) * q"
    using False by (simp add: rnd_def q_def Let_def)
  have "rnd x - x = (of_int (rne (x / q)) - x / q) * q"
    using qpos by (simp add: r field_simps)
  then have "\<bar>rnd x - x\<bar> = \<bar>of_int (rne (x / q)) - x / q\<bar> * q"
    using qpos by (simp add: abs_mult)
  also have "\<dots> \<le> 1 / 2 * q"
    using rne_error [of "x / q"] qpos by (intro mult_right_mono) simp_all
  also have "\<dots> = 2 powi (expo x) / 2 ^ 24" by (simp add: q)
  also have "\<dots> \<le> max \<bar>x\<bar> (1 / 2 ^ 126) / 2 ^ 24"
    using expo_le [OF False] by (intro divide_right_mono) simp_all
  finally show ?thesis .
qed

lemma rnd_bound:
  assumes "\<bar>x\<bar> \<le> M" "1 / 2 ^ 126 \<le> M"
  shows "\<bar>rnd x - x\<bar> \<le> M / 16777216"
proof -
  have "max \<bar>x\<bar> (1 / 2 ^ 126) \<le> M" using assms by simp
  then have "max \<bar>x\<bar> (1 / 2 ^ 126) / 2 ^ 24 \<le> M / 2 ^ 24"
    by (intro divide_right_mono) simp_all
  moreover have "(2::real) ^ 24 = 16777216" by simp
  ultimately have "max \<bar>x\<bar> (1 / 2 ^ 126) / 2 ^ 24 \<le> M / 16777216" by (simp only:)
  with rnd_error [of x] show ?thesis by linarith
qed

lemma rnd_nonneg: "0 \<le> x \<Longrightarrow> 0 \<le> rnd x"
proof -
  assume x: "0 \<le> x"
  have "0 \<le> rne z" if "0 \<le> z" for z
    using that unfolding rne_def Let_def by simp
  moreover have "0 < pow2 k" for k by (simp add: pow2_powi)
  ultimately show ?thesis
    using x by (simp add: rnd_def Let_def zero_le_mult_iff zero_le_divide_iff less_imp_le)
qed

lemma rnd_nonpos: "x \<le> 0 \<Longrightarrow> rnd x \<le> 0"
proof -
  assume x: "x \<le> 0"
  have "rne z \<le> 0" if "z \<le> 0" for z
    using that unfolding rne_def Let_def by (simp; linarith)
  moreover have "0 < pow2 k" for k by (simp add: pow2_powi)
  ultimately show ?thesis
    using x by (simp add: rnd_def Let_def mult_le_0_iff divide_le_0_iff less_imp_le)
qed

text \<open>No value of the range used by the sketch overflows.\<close>

lemma round32_Fin:
  assumes "\<bar>x\<bar> \<le> 2 ^ 100"
  shows "round32 (Fin x) = Fin (rnd x)"
proof -
  have "\<bar>rnd x - x\<bar> \<le> 2 ^ 100 / 16777216"
    by (rule rnd_bound [OF assms]) simp
  with assms have "\<bar>rnd x\<bar> \<le> 2 ^ 100 + 2 ^ 100 / 16777216" by linarith
  also have "\<dots> < 2 ^ 128" by simp
  finally have "\<bar>rnd x\<bar> < 2 ^ 128" .
  then have "\<not> 2 ^ 128 \<le> rnd x" "\<not> rnd x \<le> - (2 ^ 128)" by linarith+
  then show ?thesis by (simp add: round32_def Let_def)
qed

lemma add32: "\<bar>a + b\<bar> \<le> 2 ^ 100 \<Longrightarrow> Val a + Val b = Val (rnd (a + b))"
  by (simp add: round32_Fin)

lemma sub32: "\<bar>a - b\<bar> \<le> 2 ^ 100 \<Longrightarrow> Val a - Val b = Val (rnd (a - b))"
  by (simp add: round32_Fin)

lemma mul32: "\<bar>a * b\<bar> \<le> 2 ^ 100 \<Longrightarrow> Val a * Val b = Val (rnd (a * b))"
  by (simp add: round32_Fin)

lemma div32: "b \<noteq> 0 \<Longrightarrow> \<bar>a / b\<bar> \<le> 2 ^ 100 \<Longrightarrow> Val a / Val b = Val (rnd (a / b))"
  by (simp add: round32_Fin)

lemma fle_Fin [simp]: "fle (Fin a) (Fin b) \<longleftrightarrow> a \<le> b"
  by (auto simp: fle_def)

lemma less32 [simp]: "Val a < Val b \<longleftrightarrow> a < b"
  by simp

lemma le32 [simp]: "Val a \<le> Val b \<longleftrightarrow> a \<le> b"
  by (auto simp: fle_def)

lemma max32_Val [simp]: "max32 (Val a) (Val b) = Val (max a b)"
  by (simp add: max32_def max_def)

lemma min32_Val [simp]: "min32 (Val a) (Val b) = Val (min a b)"
  by (simp add: min32_def min_def)

subsection \<open>The binary32 conversions as compositions of their stages\<close>

lemma HSBtoRGB_f32_stages:
  "HSBtoRGB_f32 h s v =
    (let H = hue_phase32 h;
         r = desaturate32 s (red_ramp32 H);
         g = desaturate32 s (green_ramp32 H);
         b = desaturate32 s (blue_ramp32 H);
         v' = (if v > bright_cap32 r g b then bright_cap32 r g b else v)
     in (v', r * (v' * Val 3), g * (v' * Val 3), b * (v' * Val 3)))"
  unfolding HSBtoRGB_f32_def hue_phase32_def red_ramp32_def green_ramp32_def blue_ramp32_def
    desaturate32_def bright_cap32_def Let_def
  by (rule refl)

lemma RGBtoHSB_f32_stages:
  "RGBtoHSB_f32 h s v r g b =
    (let v' = (r + g + b) / MAX_RGB32 / Val 3;
         (r, g, b) = normalise32 r g b;
         s' = sat_of32 r g b;
         (r, g, b) = resaturate32 s' r g b;
         h' = (if s' > Val 0 \<and> v' > Val 0 then hue_of32 h r g b else h)
     in (h', s', v'))"
  unfolding RGBtoHSB_f32_def normalise32_def sat_of32_def resaturate32_def hue_of32_def
    Let_def split_def
  by (rule refl)

lemma rne_le_int: "z \<le> of_int k \<Longrightarrow> rne z \<le> k"
  unfolding rne_def Let_def by (simp; linarith)

lemma rnd_le_3:
  assumes "x \<le> 3"
  shows "rnd x \<le> 3"
proof (cases "x < 2")
  case True
  show ?thesis
  proof (cases "0 \<le> x")
    case True
    have "\<bar>rnd x - x\<bar> \<le> 2 / 16777216"
      using True \<open>x < 2\<close> by (intro rnd_bound) simp_all
    then show ?thesis using \<open>x < 2\<close> by linarith
  next
    case False
    then have "rnd x \<le> 0" by (intro rnd_nonpos) simp
    then show ?thesis by simp
  qed
next
  case False
  then have x: "2 \<le> x" by simp
  have e: "expo x = 1"
    using x assms by (simp add: expo_def numeral_eq_Suc)
  have "rnd x = of_int (rne (x * 2 ^ 22)) / 2 ^ 22"
    using x by (simp add: rnd_def e pow2_def Let_def)
  moreover have "rne (x * 2 ^ 22) \<le> 12582912"
    using assms by (intro rne_le_int) simp
  ultimately show ?thesis by (simp add: field_simps)
qed

subsection \<open>The stages of \<^verbatim>\<open>HSBtoRGB\<close> in binary32\<close>

text \<open>
  Each stage, on finite arguments in range, returns a finite value close to the value of the
  exact stage: the scaled hue within \<open>3 / 2 ^ 24\<close>, a ramp within 1/20000, a desaturated
  channel within 1/5000. The cap of the brightness lies between 0.33 and 1.02, and an output
  channel is within \<open>K / 65536\<close> of the desaturated channel times \<open>K\<close>, the rounded
  \<^verbatim>\<open>bright * 3.0\<close>.
\<close>

lemma hue_phase32_val:
  assumes "0 \<le> h" "h < 1"
  obtains H where "hue_phase32 (Val h) = Val H" "0 \<le> H" "H \<le> 3"
    "\<bar>H - 3 * h\<bar> \<le> 3 / 16777216"
proof
  have "\<bar>h * 3\<bar> \<le> 2 ^ 100" using assms by simp
  then have "round32 (Fin (h * 3)) = Fin (rnd (h * 3))" by (rule round32_Fin)
  then show "hue_phase32 (Val h) = Val (rnd (h * 3))"
    using assms by (simp add: hue_phase32_def Let_def not_less)
  show "0 \<le> rnd (h * 3)" using assms by (intro rnd_nonneg) simp
  show "rnd (h * 3) \<le> 3" using assms by (intro rnd_le_3) simp
  have "\<bar>rnd (h * 3) - h * 3\<bar> \<le> 3 / 16777216"
    using assms by (intro rnd_bound) simp_all
  then show "\<bar>rnd (h * 3) - 3 * h\<bar> \<le> 3 / 16777216" by (simp add: mult.commute)
qed

text \<open>A ramp value \<open>255 * t\<close> or \<open>255 - 255 * t\<close> with \<open>t\<close> a difference in \<open>[0, 1]\<close>.\<close>

lemma MAX_over_1: "MAX_RGB32 / Val 1 = Val 255"
  by (simp add: f32_eval)

lemma ramp_up:
  assumes "0 \<le> H - c" "H - c \<le> 1"
  obtains r where "MAX_RGB32 / Val 1 * (Val H - Val c) = Val r"
    "\<bar>r - 255 * (H - c)\<bar> \<le> 1 / 32768"
proof -
  define t where "t = rnd (H - c)"
  define r where "r = rnd (255 * t)"
  have t: "\<bar>t - (H - c)\<bar> \<le> 1 / 16777216"
    unfolding t_def using assms by (intro rnd_bound) simp_all
  have "\<bar>H - c\<bar> \<le> 2 ^ 100" using assms by simp
  then have s: "Val H - Val c = Val t" unfolding t_def by (rule sub32)
  have b: "\<bar>255 * t\<bar> \<le> 256" using t assms by argo
  then have "\<bar>255 * t\<bar> \<le> 2 ^ 100" by simp
  then have v: "MAX_RGB32 / Val 1 * (Val H - Val c) = Val r"
    unfolding r_def by (simp only: MAX_over_1 s mul32)
  have "\<bar>r - 255 * t\<bar> \<le> 256 / 16777216"
    unfolding r_def using b by (intro rnd_bound) simp_all
  with t have "\<bar>r - 255 * (H - c)\<bar> \<le> 1 / 32768" by argo
  with v show ?thesis by (rule that)
qed

lemma ramp_down:
  assumes "0 \<le> H - c" "H - c \<le> 1"
  obtains r where "MAX_RGB32 - MAX_RGB32 / Val 1 * (Val H - Val c) = Val r"
    "\<bar>r - (255 - 255 * (H - c))\<bar> \<le> 1 / 20000"
proof -
  from ramp_up [OF assms] obtain p where
    p: "MAX_RGB32 / Val 1 * (Val H - Val c) = Val p" "\<bar>p - 255 * (H - c)\<bar> \<le> 1 / 32768"
    by blast
  define r where "r = rnd (255 - p)"
  have b: "\<bar>255 - p\<bar> \<le> 256" using p(2) assms by argo
  then have "\<bar>255 - p\<bar> \<le> 2 ^ 100" by simp
  then have "MAX_RGB32 - Val p = Val r"
    unfolding r_def MAX_RGB32_def by (rule sub32)
  then have v: "MAX_RGB32 - MAX_RGB32 / Val 1 * (Val H - Val c) = Val r"
    by (simp only: p(1))
  have "\<bar>r - (255 - p)\<bar> \<le> 256 / 16777216"
    unfolding r_def using b by (intro rnd_bound) simp_all
  with p(2) have "\<bar>r - (255 - 255 * (H - c))\<bar> \<le> 1 / 20000" by argo
  with v show ?thesis by (rule that)
qed

lemma red_ramp32_val:
  assumes "0 \<le> H" "H \<le> 3"
  obtains r where "red_ramp32 (Val H) = Val r" "\<bar>r - red_ramp H\<bar> \<le> 1 / 20000"
proof -
  consider "H \<le> 1" | "1 < H" "H \<le> 2" | "2 < H" by linarith
  then show ?thesis
  proof cases
    case 1
    with assms have "0 \<le> H - 0" "H - 0 \<le> 1" by simp_all
    from ramp_up [OF this] obtain r where
      r: "MAX_RGB32 / Val 1 * (Val H - Val 0) = Val r" "\<bar>r - 255 * (H - 0)\<bar> \<le> 1 / 32768"
      by blast
    have "red_ramp32 (Val H) = Val r"
      using assms 1 by (simp only: red_ramp32_def le32 less32 r(1)) simp
    moreover have "\<bar>r - red_ramp H\<bar> \<le> 1 / 20000"
      using r(2) assms 1 by (simp add: red_ramp_def MAX_RGB_def)
    ultimately show ?thesis by (rule that)
  next
    case 2
    then have "0 \<le> H - 1" "H - 1 \<le> 1" by simp_all
    from ramp_down [OF this] obtain r where
      r: "MAX_RGB32 - MAX_RGB32 / Val 1 * (Val H - Val 1) = Val r"
        "\<bar>r - (255 - 255 * (H - 1))\<bar> \<le> 1 / 20000"
      by blast
    have "red_ramp32 (Val H) = Val r"
      using assms 2 by (simp only: red_ramp32_def le32 less32 r(1)) simp
    moreover have "\<bar>r - red_ramp H\<bar> \<le> 1 / 20000"
      using r(2) assms 2 by (simp add: red_ramp_def MAX_RGB_def)
    ultimately show ?thesis by (rule that)
  next
    case 3
    have "red_ramp32 (Val H) = Val 0"
      using assms 3 by (simp add: red_ramp32_def)
    moreover have "\<bar>0 - red_ramp H\<bar> \<le> 1 / 20000"
      using assms 3 by (simp add: red_ramp_def)
    ultimately show ?thesis by (rule that)
  qed
qed


lemma green_ramp32_val:
  assumes "0 \<le> H" "H \<le> 3"
  obtains r where "green_ramp32 (Val H) = Val r" "\<bar>r - green_ramp H\<bar> \<le> 1 / 20000"
proof -
  consider "H < 1" | "1 \<le> H" "H \<le> 2" | "2 < H" by linarith
  then show ?thesis
  proof cases
    case 1
    have "green_ramp32 (Val H) = Val 0"
      using assms 1 by (simp add: green_ramp32_def)
    moreover have "\<bar>0 - green_ramp H\<bar> \<le> 1 / 20000"
      using assms 1 by (simp add: green_ramp_def)
    ultimately show ?thesis by (rule that)
  next
    case 2
    then have "0 \<le> H - 1" "H - 1 \<le> 1" by simp_all
    from ramp_up [OF this] obtain r where
      r: "MAX_RGB32 / Val 1 * (Val H - Val 1) = Val r" "\<bar>r - 255 * (H - 1)\<bar> \<le> 1 / 32768"
      by blast
    have "green_ramp32 (Val H) = Val r"
      using assms 2 by (simp only: green_ramp32_def le32 less32 r(1)) simp
    moreover have "\<bar>r - green_ramp H\<bar> \<le> 1 / 20000"
      using r(2) assms 2 by (simp add: green_ramp_def MAX_RGB_def)
    ultimately show ?thesis by (rule that)
  next
    case 3
    with assms have "0 \<le> H - 2" "H - 2 \<le> 1" by simp_all
    from ramp_down [OF this] obtain r where
      r: "MAX_RGB32 - MAX_RGB32 / Val 1 * (Val H - Val 2) = Val r"
        "\<bar>r - (255 - 255 * (H - 2))\<bar> \<le> 1 / 20000"
      by blast
    have "green_ramp32 (Val H) = Val r"
      using assms 3 by (simp only: green_ramp32_def le32 less32 r(1)) simp
    moreover have "\<bar>r - green_ramp H\<bar> \<le> 1 / 20000"
      using r(2) assms 3 by (simp add: green_ramp_def MAX_RGB_def)
    ultimately show ?thesis by (rule that)
  qed
qed

lemma blue_ramp32_val:
  assumes "0 \<le> H" "H \<le> 3"
  obtains r where "blue_ramp32 (Val H) = Val r" "\<bar>r - blue_ramp H\<bar> \<le> 1 / 20000"
proof -
  consider "H \<le> 1" | "1 < H" "H < 2" | "2 \<le> H" by linarith
  then show ?thesis
  proof cases
    case 1
    with assms have "0 \<le> H - 0" "H - 0 \<le> 1" by simp_all
    from ramp_down [OF this] obtain r where
      r: "MAX_RGB32 - MAX_RGB32 / Val 1 * (Val H - Val 0) = Val r"
        "\<bar>r - (255 - 255 * (H - 0))\<bar> \<le> 1 / 20000"
      by blast
    have "blue_ramp32 (Val H) = Val r"
      using assms 1 by (simp only: blue_ramp32_def le32 less32 r(1)) simp
    moreover have "\<bar>r - blue_ramp H\<bar> \<le> 1 / 20000"
      using r(2) assms 1 by (simp add: blue_ramp_def MAX_RGB_def)
    ultimately show ?thesis by (rule that)
  next
    case 2
    have "blue_ramp32 (Val H) = Val 0"
      using assms 2 by (simp add: blue_ramp32_def)
    moreover have "\<bar>0 - blue_ramp H\<bar> \<le> 1 / 20000"
      using assms 2 by (simp add: blue_ramp_def)
    ultimately show ?thesis by (rule that)
  next
    case 3
    with assms have "0 \<le> H - 2" "H - 2 \<le> 1" by simp_all
    from ramp_up [OF this] obtain r where
      r: "MAX_RGB32 / Val 1 * (Val H - Val 2) = Val r" "\<bar>r - 255 * (H - 2)\<bar> \<le> 1 / 32768"
      by blast
    have "blue_ramp32 (Val H) = Val r"
      using assms 3 by (simp only: blue_ramp32_def le32 less32 r(1)) simp
    moreover have "\<bar>r - blue_ramp H\<bar> \<le> 1 / 20000"
      using r(2) assms 3 by (simp add: blue_ramp_def MAX_RGB_def)
    ultimately show ?thesis by (rule that)
  qed
qed

lemma scale_le:
  fixes s a :: real
  assumes "0 \<le> s" "s \<le> 1"
  shows "\<bar>s * a\<bar> \<le> \<bar>a\<bar>"
proof -
  have "\<bar>s * a\<bar> = s * \<bar>a\<bar>" using assms by (simp add: abs_mult)
  also have "\<dots> \<le> 1 * \<bar>a\<bar>" using assms by (intro mult_right_mono) simp_all
  finally show ?thesis by simp
qed

lemma desaturate32_val:
  assumes "0 \<le> s" "s \<le> 1" "\<bar>r - R\<bar> \<le> 1 / 20000" "0 \<le> R" "R \<le> 255"
  obtains d where "desaturate32 (Val s) (Val r) = Val d"
    "\<bar>d - desaturate s R\<bar> \<le> 1 / 5000"
proof -
  define x1 where "x1 = rnd (1 - s)"
  define x2 where "x2 = rnd (x1 * 255)"
  define x3 where "x3 = rnd (x2 / 3)"
  define p where "p = s * r"
  define P where "P = s * R"
  define y where "y = rnd p"
  define d where "d = rnd (x3 + y)"
  have e1: "\<bar>x1 - (1 - s)\<bar> \<le> 1 / 16777216"
    unfolding x1_def using assms by (intro rnd_bound) simp_all
  have v1: "Val 1 - Val s = Val x1"
    unfolding x1_def using assms by (intro sub32) simp
  have b2: "\<bar>x1 * 255\<bar> \<le> 256" using e1 assms(1,2) by argo
  have e2: "\<bar>x2 - x1 * 255\<bar> \<le> 256 / 16777216"
    unfolding x2_def using b2 by (intro rnd_bound) simp_all
  have v2: "Val x1 * MAX_RGB32 = Val x2"
    unfolding x2_def MAX_RGB32_def using b2 by (intro mul32) simp
  have b3: "\<bar>x2 / 3\<bar> \<le> 86" using e2 b2 by argo
  have e3: "\<bar>x3 - x2 / 3\<bar> \<le> 86 / 16777216"
    unfolding x3_def using b3 by (intro rnd_bound) simp_all
  have v3: "Val x2 / Val 3 = Val x3"
    unfolding x3_def using b3 by (intro div32) simp_all
  have "p - P = s * (r - R)" by (simp add: p_def P_def algebra_simps)
  then have pP: "\<bar>p - P\<bar> \<le> 1 / 20000"
    using scale_le [OF assms(1,2), of "r - R"] assms(3) by simp
  have "\<bar>P\<bar> \<le> \<bar>R\<bar>" unfolding P_def by (rule scale_le [OF assms(1,2)])
  then have P: "0 \<le> P" "P \<le> 255"
    using assms by (simp_all add: P_def)
  have bp: "\<bar>p\<bar> \<le> 256" using pP P by argo
  have ey: "\<bar>y - p\<bar> \<le> 256 / 16777216"
    unfolding y_def using bp by (intro rnd_bound) simp_all
  have vy: "Val s * Val r = Val y"
    unfolding y_def p_def using bp [unfolded p_def] by (intro mul32) simp
  have bd: "\<bar>x3 + y\<bar> \<le> 512" using e3 b3 ey bp by argo
  have ed: "\<bar>d - (x3 + y)\<bar> \<le> 512 / 16777216"
    unfolding d_def using bd by (intro rnd_bound) simp_all
  have vd: "Val x3 + Val y = Val d"
    unfolding d_def using bd by (intro add32) simp
  have val: "desaturate32 (Val s) (Val r) = Val d"
    by (simp only: desaturate32_def v1 v2 v3 vy vd)
  have "desaturate s R = (1 - s) * 255 / 3 + P"
    by (simp add: desaturate_def MAX_RGB_def P_def)
  then have "\<bar>d - desaturate s R\<bar> \<le> 1 / 5000"
    using e1 e2 e3 pP ey ed by argo
  with val show ?thesis by (rule that)
qed

lemma bright_cap32_val:
  assumes "84 \<le> m" "m \<le> 256"
  obtains c where "MAX_RGB32 / Val m / Val 3 = Val c" "33 / 100 \<le> c" "c \<le> 102 / 100"
proof -
  define q where "q = 255 / m"
  define x where "x = rnd q"
  define c where "c = rnd (x / 3)"
  have m: "0 < m" "m \<noteq> 0" using assms by simp_all
  have q: "255 / 256 \<le> q" "q \<le> 255 / 84"
    using assms m by (simp_all add: q_def field_simps)
  then have bq: "\<bar>q\<bar> \<le> 4" by simp
  have ex: "\<bar>x - q\<bar> \<le> 4 / 16777216"
    unfolding x_def using bq by (intro rnd_bound) simp_all
  have vx: "MAX_RGB32 / Val m = Val x"
    unfolding x_def q_def MAX_RGB32_def using bq [unfolded q_def] m by (intro div32) simp_all
  have bx: "\<bar>x / 3\<bar> \<le> 2" using ex q by argo
  have ec: "\<bar>c - x / 3\<bar> \<le> 2 / 16777216"
    unfolding c_def using bx by (intro rnd_bound) simp_all
  have vc: "Val x / Val 3 = Val c"
    unfolding c_def using bx by (intro div32) simp_all
  have "MAX_RGB32 / Val m / Val 3 = Val c" by (simp only: vx vc)
  moreover have "33 / 100 \<le> c" "c \<le> 102 / 100" using ec ex q by argo+
  ultimately show ?thesis by (rule that)
qed

lemma scaled32_val:
  assumes "\<bar>d\<bar> \<le> 256" "3 / 200 \<le> K" "K \<le> 4"
  obtains x where "Val d * Val K = Val x" "\<bar>x - d * K\<bar> \<le> K / 65536"
proof -
  define x where "x = rnd (d * K)"
  have "\<bar>d * K\<bar> = \<bar>d\<bar> * K" using assms by (simp add: abs_mult)
  also have "\<dots> \<le> 256 * K" using assms by (intro mult_right_mono) simp_all
  finally have b: "\<bar>d * K\<bar> \<le> 256 * K" .
  have "\<bar>x - d * K\<bar> \<le> 256 * K / 16777216"
    unfolding x_def using b assms by (intro rnd_bound) simp_all
  then have e: "\<bar>x - d * K\<bar> \<le> K / 65536" by simp
  have "\<bar>d * K\<bar> \<le> 2 ^ 100" using b assms by simp
  then have "Val d * Val K = Val x" unfolding x_def by (rule mul32)
  then show ?thesis using e by (rule that)
qed

lemma HSBtoRGB_f32_val:
  assumes "0 \<le> h" "h < 1" "0 \<le> s" "s \<le> 1" "1 / 100 < b"
  obtains H b' K dr dg db xr xg xb where
    "HSBtoRGB_f32 (Val h) (Val s) (Val b) = (Val b', Val xr, Val xg, Val xb)"
    "0 \<le> H" "H \<le> 3" "\<bar>H - 3 * h\<bar> \<le> 3 / 16777216"
    "\<bar>dr - desaturate s (red_ramp H)\<bar> \<le> 1 / 5000"
    "\<bar>dg - desaturate s (green_ramp H)\<bar> \<le> 1 / 5000"
    "\<bar>db - desaturate s (blue_ramp H)\<bar> \<le> 1 / 5000"
    "1 / 100 < b'" "b' \<le> b" "b' \<le> 102 / 100" "b \<le> 33 / 100 \<longrightarrow> b' = b"
    "\<bar>K - 3 * b'\<bar> \<le> 3 * b' / 16777216"
    "\<bar>xr - dr * K\<bar> \<le> K / 65536" "\<bar>xg - dg * K\<bar> \<le> K / 65536"
    "\<bar>xb - db * K\<bar> \<le> K / 65536"
proof -
  from hue_phase32_val [OF assms(1,2)] obtain H where
    H: "hue_phase32 (Val h) = Val H" "0 \<le> H" "H \<le> 3" "\<bar>H - 3 * h\<bar> \<le> 3 / 16777216"
    by blast
  from red_ramp32_val [OF H(2,3)] obtain rr where
    rr: "red_ramp32 (Val H) = Val rr" "\<bar>rr - red_ramp H\<bar> \<le> 1 / 20000" by blast
  from green_ramp32_val [OF H(2,3)] obtain rg where
    rg: "green_ramp32 (Val H) = Val rg" "\<bar>rg - green_ramp H\<bar> \<le> 1 / 20000" by blast
  from blue_ramp32_val [OF H(2,3)] obtain rb where
    rb: "blue_ramp32 (Val H) = Val rb" "\<bar>rb - blue_ramp H\<bar> \<le> 1 / 20000" by blast
  note rbnd = red_ramp_bounds [of H] green_ramp_bounds [of H] blue_ramp_bounds [of H]
  define Dr where "Dr = desaturate s (red_ramp H)"
  define Dg where "Dg = desaturate s (green_ramp H)"
  define Db where "Db = desaturate s (blue_ramp H)"
  from desaturate32_val [OF assms(3,4) rr(2)] rbnd obtain dr where
    dr: "desaturate32 (Val s) (Val rr) = Val dr" "\<bar>dr - Dr\<bar> \<le> 1 / 5000"
    unfolding Dr_def by blast
  from desaturate32_val [OF assms(3,4) rg(2)] rbnd obtain dg where
    dg: "desaturate32 (Val s) (Val rg) = Val dg" "\<bar>dg - Dg\<bar> \<le> 1 / 5000"
    unfolding Dg_def by blast
  from desaturate32_val [OF assms(3,4) rb(2)] rbnd obtain db where
    db: "desaturate32 (Val s) (Val rb) = Val db" "\<bar>db - Db\<bar> \<le> 1 / 5000"
    unfolding Db_def by blast
  have sum: "Dr + Dg + Db = 255"
    unfolding Dr_def Dg_def Db_def by (intro desaturate_sum ramp_sum H)
  have nonneg: "0 \<le> Dr" "0 \<le> Dg" "0 \<le> Db"
    unfolding Dr_def Dg_def Db_def using rbnd assms(3,4) by (simp_all add: desaturate_nonneg)
  have third: "85 \<le> max Dr (max Dg Db)" by (rule max3_ge_third [OF sum])
  define m where "m = max dr (max dg db)"
  have m: "84 \<le> m" "m \<le> 256"
    unfolding m_def using third sum nonneg dr(2) dg(2) db(2) by argo+
  from bright_cap32_val [OF m] obtain c where
    c: "MAX_RGB32 / Val m / Val 3 = Val c" "33 / 100 \<le> c" "c \<le> 102 / 100" by blast
  have cap: "bright_cap32 (Val dr) (Val dg) (Val db) = Val c"
    by (simp add: bright_cap32_def m_def [symmetric] c(1))
  define b' where "b' = min b c"
  have sel: "(if Val b > Val c then Val c else Val b) = Val b'"
    by (simp add: b'_def min_def)
  have b': "1 / 100 < b'" "b' \<le> b" "b' \<le> 102 / 100" "b \<le> 33 / 100 \<longrightarrow> b' = b"
    unfolding b'_def using assms(5) c(2,3) by (simp_all add: min_def)
  define K where "K = rnd (b' * 3)"
  have "\<bar>K - b' * 3\<bar> \<le> b' * 3 / 16777216"
    unfolding K_def using b' by (intro rnd_bound) simp_all
  then have eK: "\<bar>K - 3 * b'\<bar> \<le> 3 * b' / 16777216" by (simp add: mult.commute)
  have vK: "Val b' * Val 3 = Val K"
    unfolding K_def using b' by (intro mul32) simp
  have K: "3 / 200 \<le> K" "K \<le> 4" using eK b' by argo+
  have bd: "\<bar>dr\<bar> \<le> 256" "\<bar>dg\<bar> \<le> 256" "\<bar>db\<bar> \<le> 256"
    using sum nonneg dr(2) dg(2) db(2) by argo+
  from scaled32_val [OF bd(1) K] obtain xr where
    xr: "Val dr * Val K = Val xr" "\<bar>xr - dr * K\<bar> \<le> K / 65536" by blast
  from scaled32_val [OF bd(2) K] obtain xg where
    xg: "Val dg * Val K = Val xg" "\<bar>xg - dg * K\<bar> \<le> K / 65536" by blast
  from scaled32_val [OF bd(3) K] obtain xb where
    xb: "Val db * Val K = Val xb" "\<bar>xb - db * K\<bar> \<le> K / 65536" by blast
  have "HSBtoRGB_f32 (Val h) (Val s) (Val b) = (Val b', Val xr, Val xg, Val xb)"
    by (simp only: HSBtoRGB_f32_stages H(1) rr(1) rg(1) rb(1) dr(1) dg(1) db(1) cap sel
        vK xr(1) xg(1) xb(1) Let_def)
  then show ?thesis
    using H(2-4) dr(2) dg(2) db(2) b' eK xr(2) xg(2) xb(2)
    unfolding Dr_def Dg_def Db_def by (rule that)
qed

subsection \<open>The stages of \<^verbatim>\<open>RGBtoHSB\<close> in binary32\<close>

text \<open>
  On the channels that \<^verbatim>\<open>HSBtoRGB\<close> returned: their sum is within \<open>K / 1000\<close> of \<open>255 * K\<close>,
  the brightness read back is within 1/10000 of the brightness written, the channels scaled
  to the sum 255 are within 1/600 of the exact desaturated ramps, the saturation is within
  1/50000 of the one given, and the resaturated channels are within 13/25 of the exact ramps
  when the saturation is above 0.01. The hue read off channels that close to the ramps at
  \<open>H\<close> is, times 3, within 1/50 of \<open>H\<close> or of \<open>H\<close> plus or minus 3: the two ends of the
  hue range are the same colour, and a hue next to one end can come back next to the other.
\<close>

lemma abs_prod_le:
  fixes d K :: real
  assumes "\<bar>d\<bar> \<le> c" "0 \<le> K"
  shows "\<bar>d * K\<bar> \<le> c * K"
proof -
  have "\<bar>d * K\<bar> = \<bar>d\<bar> * K" using assms by (simp add: abs_mult)
  also have "\<dots> \<le> c * K" using assms by (intro mult_right_mono) simp_all
  finally show ?thesis .
qed

lemma sum32_val:
  assumes K: "3 / 200 \<le> K" "K \<le> 4"
    and x: "\<bar>xr - dr * K\<bar> \<le> K / 65536" "\<bar>xg - dg * K\<bar> \<le> K / 65536"
      "\<bar>xb - db * K\<bar> \<le> K / 65536"
    and d: "\<bar>dr - Dr\<bar> \<le> 1 / 5000" "\<bar>dg - Dg\<bar> \<le> 1 / 5000" "\<bar>db - Db\<bar> \<le> 1 / 5000"
    and D: "0 \<le> Dr" "0 \<le> Dg" "0 \<le> Db" "Dr + Dg + Db = 255"
  obtains S where "Val xr + Val xg + Val xb = Val S" "\<bar>S - 255 * K\<bar> \<le> K / 1000"
proof -
  define pr where "pr = dr * K"
  define pg where "pg = dg * K"
  define pb where "pb = db * K"
  have K0: "0 \<le> K" using K by simp
  have bd: "\<bar>dr\<bar> \<le> 256" "\<bar>dg\<bar> \<le> 256" "\<bar>db\<bar> \<le> 256"
    using d D by argo+
  have bp: "\<bar>pr\<bar> \<le> 256 * K" "\<bar>pg\<bar> \<le> 256 * K" "\<bar>pb\<bar> \<le> 256 * K"
    unfolding pr_def pg_def pb_def using bd K0 by (simp_all add: abs_prod_le)
  note x' = x [folded pr_def pg_def pb_def]
  define S1 where "S1 = rnd (xr + xg)"
  define S where "S = rnd (S1 + xb)"
  have b1: "\<bar>xr + xg\<bar> \<le> 515 * K" using bp x' K0 by argo
  have e1: "\<bar>S1 - (xr + xg)\<bar> \<le> 515 * K / 16777216"
    unfolding S1_def using b1 K by (intro rnd_bound) simp_all
  have v1: "Val xr + Val xg = Val S1"
    unfolding S1_def using b1 K by (intro add32) simp
  have b2: "\<bar>S1 + xb\<bar> \<le> 773 * K" using e1 b1 bp x' K0 by argo
  have e2: "\<bar>S - (S1 + xb)\<bar> \<le> 773 * K / 16777216"
    unfolding S_def using b2 K by (intro rnd_bound) simp_all
  have v2: "Val S1 + Val xb = Val S"
    unfolding S_def using b2 K by (intro add32) simp
  have "pr + pg + pb - 255 * K = (dr + dg + db - 255) * K"
    by (simp add: pr_def pg_def pb_def algebra_simps)
  moreover have "\<bar>dr + dg + db - 255\<bar> \<le> 3 / 5000" using d D(4) by argo
  then have "\<bar>(dr + dg + db - 255) * K\<bar> \<le> 3 / 5000 * K" using K0 by (rule abs_prod_le)
  ultimately have ps: "\<bar>pr + pg + pb - 255 * K\<bar> \<le> 3 / 5000 * K" by simp
  have "\<bar>S - 255 * K\<bar> \<le> K / 1000" using e1 e2 x' ps K0 by argo
  moreover have "Val xr + Val xg + Val xb = Val S" by (simp only: v1 v2)
  ultimately show ?thesis using that by blast
qed

lemma mean32_val:
  assumes K: "3 / 200 \<le> K" "K \<le> 4" and S: "\<bar>S - 255 * K\<bar> \<le> K / 1000"
    and b: "0 < b'" "\<bar>K - 3 * b'\<bar> \<le> 3 * b' / 16777216"
  obtains v where "Val S / MAX_RGB32 / Val 3 = Val v" "\<bar>v - b'\<bar> \<le> b' / 10000" "0 < v"
proof -
  define x where "x = rnd (S / 255)"
  define v where "v = rnd (x / 3)"
  have S0: "0 < S" "S \<le> 1024" using S K by argo+
  have bx: "\<bar>S / 255\<bar> \<le> S / 255" using S0 by simp
  have lo: "1 / 2 ^ 126 \<le> S / 255" 
  proof -
    have "(1 :: real) / 2 ^ 126 \<le> 1 / 100000" by simp
    moreover have "1 / 100000 \<le> S / 255" using S K by argo
    ultimately show ?thesis by (rule order_trans)
  qed
  have ex: "\<bar>x - S / 255\<bar> \<le> S / 255 / 16777216"
    unfolding x_def using bx lo by (rule rnd_bound)
  have vx: "Val S / MAX_RGB32 = Val x"
    unfolding x_def MAX_RGB32_def using S0 by (intro div32) simp_all
  have x0: "1 / 100000 \<le> x" "x \<le> 5" using ex S K by argo+
  have bv: "\<bar>x / 3\<bar> \<le> x / 3" using x0 by simp
  have lo': "1 / 2 ^ 126 \<le> x / 3"
  proof -
    have "(1 :: real) / 2 ^ 126 \<le> 1 / 300000" by simp
    moreover have "1 / 300000 \<le> x / 3" using x0 by simp
    ultimately show ?thesis by (rule order_trans)
  qed
  have ev: "\<bar>v - x / 3\<bar> \<le> x / 3 / 16777216"
    unfolding v_def using bv lo' by (rule rnd_bound)
  have vv: "Val x / Val 3 = Val v"
    unfolding v_def using x0 by (intro div32) simp_all
  have "Val S / MAX_RGB32 / Val 3 = Val v" by (simp only: vx vv)
  moreover have "\<bar>v - b'\<bar> \<le> b' / 10000" using ex ev S b K by argo
  moreover have "0 < v" using ev x0 by argo
  ultimately show ?thesis using that by blast
qed

lemma normalised32_val:
  assumes K: "3 / 200 \<le> K" "K \<le> 4" and S: "\<bar>S - 255 * K\<bar> \<le> K / 1000"
    and k: "0 \<le> k" "\<bar>K * k - 1\<bar> \<le> 1 / 200000"
    and x: "\<bar>x - d * K\<bar> \<le> K / 65536" and d: "\<bar>d - D\<bar> \<le> 1 / 5000" "0 \<le> D" "D \<le> 255"
  obtains n where "Val x * Val k = Val n" "\<bar>n - D\<bar> \<le> 1 / 600"
proof -
  define w where "w = K * k"
  define q where "q = x * k"
  define n where "n = rnd q"
  have bd: "\<bar>d\<bar> \<le> 256" using d by argo
  have "q - d = (x - d * K) * k + d * (w - 1)"
    by (simp add: q_def w_def algebra_simps)
  moreover have "\<bar>(x - d * K) * k\<bar> \<le> K / 65536 * k"
    using x k(1) by (rule abs_prod_le)
  moreover have "K / 65536 * k = w / 65536" by (simp add: w_def)
  moreover have "\<bar>d * (w - 1)\<bar> \<le> 256 * (1 / 200000)"
  proof -
    have "\<bar>d * (w - 1)\<bar> = \<bar>d\<bar> * \<bar>w - 1\<bar>" by (simp add: abs_mult)
    also have "\<dots> \<le> 256 * (1 / 200000)"
      using bd k(2) [folded w_def] by (intro mult_mono) simp_all
    finally show ?thesis .
  qed
  ultimately have eq: "\<bar>q - d\<bar> \<le> w / 65536 + 256 / 200000" by argo
  have w: "\<bar>w - 1\<bar> \<le> 1 / 200000" using k(2) by (simp add: w_def)
  have bq: "\<bar>q\<bar> \<le> 258" using eq w bd by argo
  have en: "\<bar>n - q\<bar> \<le> 258 / 16777216"
    unfolding n_def using bq by (intro rnd_bound) simp_all
  have "Val x * Val k = Val n"
    unfolding n_def q_def using bq [unfolded q_def] by (intro mul32) simp
  moreover have "\<bar>n - D\<bar> \<le> 1 / 600" using en eq w d(1) by argo
  ultimately show ?thesis by (rule that)
qed

lemma inverse_sum32_val:
  assumes K: "3 / 200 \<le> K" "K \<le> 4" and S: "\<bar>S - 255 * K\<bar> \<le> K / 1000"
  obtains k where "MAX_RGB32 / Val S = Val k" "0 \<le> k" "\<bar>K * k - 1\<bar> \<le> 1 / 200000"
proof -
  define r where "r = 255 / S"
  define k where "k = rnd r"
  define z where "z = K * r"
  have S0: "0 < S" using S K by argo
  have K0: "0 < K" using K by simp
  have "255 * K \<le> (1 + 1 / 250000) * S" "(1 - 1 / 250000) * S \<le> 255 * K"
    using S K0 by argo+
  then have z: "z \<le> 1 + 1 / 250000" "1 - 1 / 250000 \<le> z"
    using S0 by (simp_all add: z_def r_def field_simps)
  have r0: "0 < r" using S0 by (simp add: r_def)
  have "r * K \<le> 2" using z by (simp add: z_def mult.commute)
  then have "r \<le> 2 / K" using K0 by (simp add: field_simps)
  also have "\<dots> \<le> 2 / (3 / 200)" using K by (intro divide_left_mono) simp_all
  finally have rhi: "r \<le> 134" by simp
  have "1 / 2 \<le> r * K" using z by (simp add: z_def mult.commute)
  then have "1 / 2 \<le> r * 4"
    using K r0 by (meson mult_left_mono order_trans less_imp_le)
  then have rlo: "1 / 8 \<le> r" by simp
  have lo: "1 / 2 ^ 126 \<le> r"
  proof -
    have "(1 :: real) / 2 ^ 126 \<le> 1 / 8" by simp
    then show ?thesis using rlo by (rule order_trans)
  qed
  have "\<bar>r\<bar> \<le> r" using r0 by simp
  then have ek: "\<bar>k - r\<bar> \<le> r / 16777216"
    unfolding k_def using lo by (rule rnd_bound)
  have vk: "MAX_RGB32 / Val S = Val k"
    unfolding k_def r_def MAX_RGB32_def using S0 rhi r0 [unfolded r_def] rhi [unfolded r_def]
    by (intro div32) simp_all
  have k0: "0 \<le> k" using ek r0 by argo
  have "K * k - z = K * (k - r)" by (simp add: z_def algebra_simps)
  moreover have "\<bar>K * (k - r)\<bar> \<le> K * (r / 16777216)"
  proof -
    have "\<bar>K * (k - r)\<bar> = K * \<bar>k - r\<bar>" using K0 by (simp add: abs_mult)
    also have "\<dots> \<le> K * (r / 16777216)" using ek K0 by (intro mult_left_mono) simp_all
    finally show ?thesis .
  qed
  moreover have "K * (r / 16777216) = z / 16777216" by (simp add: z_def)
  ultimately have "\<bar>K * k - z\<bar> \<le> z / 16777216" by simp
  then have "\<bar>K * k - 1\<bar> \<le> 1 / 200000" using z by argo
  with vk k0 show ?thesis by (rule that)
qed

lemma third_of_MAX: "MAX_RGB32 / Val 3 = Val 85"
  by (simp add: f32_eval)

lemma sat_of32_val:
  assumes s: "0 \<le> s" "s \<le> 1"
    and n: "\<bar>nr - desaturate s Rr\<bar> \<le> 1 / 600" "\<bar>ng - desaturate s Rg\<bar> \<le> 1 / 600"
      "\<bar>nb - desaturate s Rb\<bar> \<le> 1 / 600"
    and R: "min Rr (min Rg Rb) = 0"
  obtains \<sigma> where "sat_of32 (Val nr) (Val ng) (Val nb) = Val \<sigma>" "\<bar>\<sigma> - s\<bar> \<le> 1 / 50000"
proof -
  define m where "m = min nr (min ng nb)"
  define t where "t = rnd (85 - m)"
  define \<sigma> where "\<sigma> = rnd (t / 85)"
  have "min (desaturate s Rr) (min (desaturate s Rg) (desaturate s Rb)) = desaturate s 0"
    using s(1) R by (simp add: desaturate_min)
  also have "\<dots> = 85 - 85 * s" by (simp add: desaturate_def MAX_RGB_def)
  finally have "\<bar>m - (85 - 85 * s)\<bar> \<le> 1 / 600"
    unfolding m_def using n by argo
  then have em: "\<bar>(85 - m) - 85 * s\<bar> \<le> 1 / 600" by argo
  have bm: "\<bar>85 - m\<bar> \<le> 86" using em s by argo
  have et: "\<bar>t - (85 - m)\<bar> \<le> 86 / 16777216"
    unfolding t_def using bm by (intro rnd_bound) simp_all
  have vt: "Val 85 - Val m = Val t"
    unfolding t_def using bm by (intro sub32) simp
  have bt: "\<bar>t / 85\<bar> \<le> 2" using et bm by (simp add: abs_le_iff) argo
  have es: "\<bar>\<sigma> - t / 85\<bar> \<le> 2 / 16777216"
    unfolding \<sigma>_def using bt by (intro rnd_bound) simp_all
  have vs: "Val t / Val 85 = Val \<sigma>"
    unfolding \<sigma>_def using bt by (intro div32) simp_all
  have "sat_of32 (Val nr) (Val ng) (Val nb) = Val \<sigma>"
    by (simp only: sat_of32_def third_of_MAX min32_Val m_def [symmetric] vt vs)
  moreover have "\<bar>t / 85 - s\<bar> \<le> (1 / 600 + 86 / 16777216) / 85"
    using em et by (simp add: abs_le_iff) argo
  then have "\<bar>\<sigma> - s\<bar> \<le> 1 / 50000" using es by argo
  ultimately show ?thesis by (rule that)
qed

lemma resat_channel32:
  assumes s: "1 / 100 < s" "s \<le> 1" and \<sigma>: "\<bar>\<sigma> - s\<bar> \<le> 1 / 50000"
    and n: "\<bar>n - desaturate s R\<bar> \<le> 1 / 600" and R: "0 \<le> R" "R \<le> 255"
  obtains m where
    "(Val n - MAX_RGB32 / Val 3 + MAX_RGB32 / Val 3 * Val \<sigma>) / Val \<sigma> = Val m"
    "\<bar>m - R\<bar> \<le> 13 / 25"
proof -
  define a1 where "a1 = rnd (n - 85)"
  define a2 where "a2 = rnd (85 * \<sigma>)"
  define a3 where "a3 = rnd (a1 + a2)"
  define q where "q = a3 / \<sigma>"
  define m where "m = rnd q"
  define c where "c = (\<sigma> - s) * (85 - R)"
  have D: "desaturate s R = 85 - 85 * s + s * R" by (simp add: desaturate_def MAX_RGB_def)
  have \<sigma>0: "499 / 50000 \<le> \<sigma>" using s \<sigma> by argo
  have \<sigma>1: "\<sigma> \<le> 2" using s \<sigma> by argo
  have sR: "0 \<le> s * R" "s * R \<le> 255"
  proof -
    show "0 \<le> s * R" using s R by simp
    have "s * R \<le> 1 * 255" using s R by (intro mult_mono) simp_all
    then show "s * R \<le> 255" by simp
  qed
  have bn: "\<bar>n - 85\<bar> \<le> 256" using n D sR s by argo
  have e1: "\<bar>a1 - (n - 85)\<bar> \<le> 256 / 16777216"
    unfolding a1_def using bn by (intro rnd_bound) simp_all
  have v1: "Val n - Val 85 = Val a1"
    unfolding a1_def using bn by (intro sub32) simp
  have b2: "\<bar>85 * \<sigma>\<bar> \<le> 170" using \<sigma>0 \<sigma>1 by argo
  have e2: "\<bar>a2 - 85 * \<sigma>\<bar> \<le> 170 / 16777216"
    unfolding a2_def using b2 by (intro rnd_bound) simp_all
  have v2: "Val 85 * Val \<sigma> = Val a2"
    unfolding a2_def using b2 by (intro mul32) simp
  have b3: "\<bar>a1 + a2\<bar> \<le> 512" using e1 e2 bn b2 by argo
  have e3: "\<bar>a3 - (a1 + a2)\<bar> \<le> 512 / 16777216"
    unfolding a3_def using b3 by (intro rnd_bound) simp_all
  have v3: "Val a1 + Val a2 = Val a3"
    unfolding a3_def using b3 by (intro add32) simp
  have "\<bar>c\<bar> = \<bar>\<sigma> - s\<bar> * \<bar>85 - R\<bar>" by (simp add: c_def abs_mult)
  also have "\<dots> \<le> 1 / 50000 * 170"
    using \<sigma> R by (intro mult_mono) simp_all
  finally have ec: "\<bar>c\<bar> \<le> 170 / 50000" by simp
  have "n - 85 + 85 * \<sigma> - \<sigma> * R = (n - desaturate s R) + c"
    by (simp add: D c_def algebra_simps)
  then have e4: "\<bar>a3 - \<sigma> * R\<bar> \<le> 513 / 100000"
    using n ec e1 e2 e3 by argo
  have "q - R = (a3 - \<sigma> * R) / \<sigma>"
    using \<sigma>0 by (simp add: q_def field_simps)
  then have "\<bar>q - R\<bar> = \<bar>a3 - \<sigma> * R\<bar> / \<sigma>" using \<sigma>0 by simp
  also have "\<dots> \<le> (513 / 100000) / \<sigma>"
    using e4 \<sigma>0 by (intro divide_right_mono) simp_all
  also have "\<dots> \<le> (513 / 100000) / (499 / 50000)"
    using \<sigma>0 by (intro divide_left_mono) simp_all
  finally have eq: "\<bar>q - R\<bar> \<le> 1026 / 1996" by simp
  have bq: "\<bar>q\<bar> \<le> 256" using eq R by argo
  have em: "\<bar>m - q\<bar> \<le> 256 / 16777216"
    unfolding m_def using bq by (intro rnd_bound) simp_all
  have v4: "Val a3 / Val \<sigma> = Val m"
    unfolding m_def q_def using bq [unfolded q_def] \<sigma>0 by (intro div32) simp_all
  have "(Val n - MAX_RGB32 / Val 3 + MAX_RGB32 / Val 3 * Val \<sigma>) / Val \<sigma> = Val m"
    by (simp only: third_of_MAX v1 v2 v3 v4)
  moreover have "\<bar>m - R\<bar> \<le> 13 / 25" using em eq by argo
  ultimately show ?thesis by (rule that)
qed

lemma least_channel:
  assumes s: "1 / 100 < s"
    and n: "\<bar>n - desaturate s R\<bar> \<le> 1 / 600" "\<bar>n1 - desaturate s R1\<bar> \<le> 1 / 600"
      "\<bar>n2 - desaturate s R2\<bar> \<le> 1 / 600"
    and le: "n \<le> n1" "n \<le> n2"
    and R: "0 \<le> R" "R = 0 \<or> R1 = 0 \<or> R2 = 0"
  shows "\<bar>0 - R\<bar> \<le> 13 / 25"
proof -
  have D: "\<And>x. desaturate s x = 85 - 85 * s + s * x" by (simp add: desaturate_def MAX_RGB_def)
  have "s * R \<le> 1 / 300"
    using R(2)
  proof (elim disjE)
    assume "R = 0"
    then show ?thesis by simp
  next
    assume "R1 = 0"
    then have "\<bar>n1 - (85 - 85 * s)\<bar> \<le> 1 / 600" using n(2) by (simp add: D)
    then show ?thesis using n(1) le(1) unfolding D by argo
  next
    assume "R2 = 0"
    then have "\<bar>n2 - (85 - 85 * s)\<bar> \<le> 1 / 600" using n(3) by (simp add: D)
    then show ?thesis using n(1) le(2) unfolding D by argo
  qed
  moreover have "1 / 100 * R \<le> s * R" using s R(1) by (intro mult_right_mono) simp_all
  ultimately show ?thesis using R(1) by argo
qed

lemma resaturate32_val:
  assumes s: "1 / 100 < s" "s \<le> 1" and \<sigma>: "\<bar>\<sigma> - s\<bar> \<le> 1 / 50000"
    and n: "\<bar>nr - desaturate s Rr\<bar> \<le> 1 / 600" "\<bar>ng - desaturate s Rg\<bar> \<le> 1 / 600"
      "\<bar>nb - desaturate s Rb\<bar> \<le> 1 / 600"
    and R: "0 \<le> Rr" "Rr \<le> 255" "0 \<le> Rg" "Rg \<le> 255" "0 \<le> Rb" "Rb \<le> 255"
    and floor: "Rr = 0 \<or> Rg = 0 \<or> Rb = 0"
  obtains mr mg mb where
    "resaturate32 (Val \<sigma>) (Val nr) (Val ng) (Val nb) = (Val mr, Val mg, Val mb)"
    "\<bar>mr - Rr\<bar> \<le> 13 / 25" "\<bar>mg - Rg\<bar> \<le> 13 / 25" "\<bar>mb - Rb\<bar> \<le> 13 / 25"
proof -
  obtain cr where cr:
    "(Val nr - MAX_RGB32 / Val 3 + MAX_RGB32 / Val 3 * Val \<sigma>) / Val \<sigma> = Val cr"
    "\<bar>cr - Rr\<bar> \<le> 13 / 25"
    using s \<sigma> n(1) R(1,2) by (rule resat_channel32)
  obtain cg where cg:
    "(Val ng - MAX_RGB32 / Val 3 + MAX_RGB32 / Val 3 * Val \<sigma>) / Val \<sigma> = Val cg"
    "\<bar>cg - Rg\<bar> \<le> 13 / 25"
    using s \<sigma> n(2) R(3,4) by (rule resat_channel32)
  obtain cb where cb:
    "(Val nb - MAX_RGB32 / Val 3 + MAX_RGB32 / Val 3 * Val \<sigma>) / Val \<sigma> = Val cb"
    "\<bar>cb - Rb\<bar> \<le> 13 / 25"
    using s \<sigma> n(3) R(5,6) by (rule resat_channel32)
  consider (red) "nr \<le> min ng nb"
    | (green) "\<not> nr \<le> min ng nb" "ng \<le> min nr nb"
    | (blue) "\<not> nr \<le> min ng nb" "\<not> ng \<le> min nr nb" "nb \<le> min ng nr"
    by linarith
  then show ?thesis
  proof cases
    case red
    have eq: "resaturate32 (Val \<sigma>) (Val nr) (Val ng) (Val nb) = (Val 0, Val cg, Val cb)"
      by (simp only: resaturate32_def min32_Val le32 red if_True cg(1) cb(1))
    have z: "\<bar>0 - Rr\<bar> \<le> 13 / 25"
      using s(1) n(1,2,3) _ _ R(1) floor by (rule least_channel) (use red in simp_all)
    show ?thesis by (rule that [OF eq z cg(2) cb(2)])
  next
    case green
    have eq: "resaturate32 (Val \<sigma>) (Val nr) (Val ng) (Val nb) = (Val cr, Val 0, Val cb)"
      by (simp only: resaturate32_def min32_Val le32 green if_True if_False cr(1) cb(1))
    have z: "\<bar>0 - Rg\<bar> \<le> 13 / 25"
      using s(1) n(2,1,3) _ _ R(3) by (rule least_channel) (use green floor in auto)
    show ?thesis by (rule that [OF eq cr(2) z cb(2)])
  next
    case blue
    have eq: "resaturate32 (Val \<sigma>) (Val nr) (Val ng) (Val nb) = (Val cr, Val cg, Val 0)"
      by (simp only: resaturate32_def min32_Val le32 blue if_True if_False cr(1) cg(1))
    have z: "\<bar>0 - Rb\<bar> \<le> 13 / 25"
      using s(1) n(3,1,2) _ _ R(5) by (rule least_channel) (use blue floor in auto)
    show ?thesis by (rule that [OF eq cr(2) cg(2) z])
  qed
qed

lemma hue_of_near:
  assumes H: "0 \<le> H" "H \<le> 3"
    and m: "\<bar>mr - red_ramp H\<bar> \<le> 13 / 25" "\<bar>mg - green_ramp H\<bar> \<le> 13 / 25"
      "\<bar>mb - blue_ramp H\<bar> \<le> 13 / 25"
  shows "\<bar>3 * hue_of h0 mr mg mb - H\<bar> \<le> 1 / 50 \<or> 3 - 1 / 50 \<le> \<bar>3 * hue_of h0 mr mg mb - H\<bar>"
proof -
  consider (1) "H \<le> 1" | (2) "1 < H" "H \<le> 2" | (3) "2 < H" using H by linarith
  then show ?thesis
  proof cases
    case 1
    have m': "\<bar>mr - 255 * H\<bar> \<le> 13 / 25" "\<bar>mg\<bar> \<le> 13 / 25" "\<bar>mb - (255 - 255 * H)\<bar> \<le> 13 / 25"
      using m ramps_1 [OF H(1) 1] by simp_all
    show ?thesis
      unfolding hue_of_def Let_def MAX_RGB_def using m' H 1
      by (simp split: if_splits; argo)
  next
    case 2
    have m': "\<bar>mr - (255 - 255 * (H - 1))\<bar> \<le> 13 / 25" "\<bar>mg - 255 * (H - 1)\<bar> \<le> 13 / 25"
      "\<bar>mb\<bar> \<le> 13 / 25"
      using m ramps_2 [OF 2] by simp_all
    show ?thesis
      unfolding hue_of_def Let_def MAX_RGB_def using m' H 2
      by (simp split: if_splits; argo)
  next
    case 3
    have m': "\<bar>mr\<bar> \<le> 13 / 25" "\<bar>mg - (255 - 255 * (H - 2))\<bar> \<le> 13 / 25"
      "\<bar>mb - 255 * (H - 2)\<bar> \<le> 13 / 25"
      using m ramps_3 [OF 3 H(2)] by simp_all
    show ?thesis
      unfolding hue_of_def Let_def MAX_RGB_def using m' H 3
      by (simp split: if_splits; argo)
  qed
qed

lemma quot32:
  assumes "\<bar>x\<bar> \<le> 256"
  obtains q where "Val x / MAX_RGB32 = Val q" "\<bar>q - x / 255\<bar> \<le> 1 / 4000000" "\<bar>q\<bar> \<le> 2"
proof -
  define q where "q = rnd (x / 255)"
  have b: "\<bar>x / 255\<bar> \<le> 3 / 2" using assms by argo
  have e: "\<bar>q - x / 255\<bar> \<le> (3 / 2) / 16777216"
    unfolding q_def using b by (intro rnd_bound) simp_all
  have "Val x / MAX_RGB32 = Val q"
    unfolding q_def MAX_RGB32_def using b by (intro div32) simp_all
  moreover have "\<bar>q - x / 255\<bar> \<le> 1 / 4000000" using e by argo
  moreover have "\<bar>q\<bar> \<le> 2" using e b by argo
  ultimately show ?thesis by (rule that)
qed

lemma third32:
  assumes "\<bar>y\<bar> \<le> 6"
  obtains w where "Val y / Val 3 = Val w" "\<bar>w - y / 3\<bar> \<le> 1 / 4000000"
proof -
  define w where "w = rnd (y / 3)"
  have b: "\<bar>y / 3\<bar> \<le> 2" using assms by argo
  have e: "\<bar>w - y / 3\<bar> \<le> 2 / 16777216"
    unfolding w_def using b by (intro rnd_bound) simp_all
  have "Val y / Val 3 = Val w"
    unfolding w_def using b by (intro div32) simp_all
  moreover have "\<bar>w - y / 3\<bar> \<le> 1 / 4000000" using e by argo
  ultimately show ?thesis by (rule that)
qed

lemma branch_plain:
  assumes "\<bar>x\<bar> \<le> 256"
  shows "\<exists>w. Val x / MAX_RGB32 / Val 3 = Val w \<and> \<bar>w - x / 255 / 3\<bar> \<le> 1 / 1000000"
proof -
  obtain q where q: "Val x / MAX_RGB32 = Val q" "\<bar>q - x / 255\<bar> \<le> 1 / 4000000" "\<bar>q\<bar> \<le> 2"
    using assms by (rule quot32)
  have "\<bar>q\<bar> \<le> 6" using q(3) by simp
  then obtain w where w: "Val q / Val 3 = Val w" "\<bar>w - q / 3\<bar> \<le> 1 / 4000000"
    by (rule third32)
  have "Val x / MAX_RGB32 / Val 3 = Val w" by (simp only: q(1) w(1))
  moreover have "\<bar>w - x / 255 / 3\<bar> \<le> 1 / 1000000" using q(2) w(2) by argo
  ultimately show ?thesis by blast
qed

lemma branch_plus:
  assumes "\<bar>c\<bar> \<le> 3" "\<bar>x\<bar> \<le> 256"
  shows "\<exists>w. (Val c + Val x / MAX_RGB32) / Val 3 = Val w \<and>
             \<bar>w - (c + x / 255) / 3\<bar> \<le> 1 / 1000000"
proof -
  obtain q where q: "Val x / MAX_RGB32 = Val q" "\<bar>q - x / 255\<bar> \<le> 1 / 4000000" "\<bar>q\<bar> \<le> 2"
    using assms(2) by (rule quot32)
  define y where "y = rnd (c + q)"
  have b: "\<bar>c + q\<bar> \<le> 5" using assms(1) q(3) by argo
  have e: "\<bar>y - (c + q)\<bar> \<le> 5 / 16777216"
    unfolding y_def using b by (intro rnd_bound) simp_all
  have vy: "Val c + Val q = Val y"
    unfolding y_def using b by (intro add32) simp
  have "\<bar>y\<bar> \<le> 6" using e b by argo
  then obtain w where w: "Val y / Val 3 = Val w" "\<bar>w - y / 3\<bar> \<le> 1 / 4000000"
    by (rule third32)
  have "(Val c + Val x / MAX_RGB32) / Val 3 = Val w" by (simp only: q(1) vy w(1))
  moreover have "\<bar>w - (c + x / 255) / 3\<bar> \<le> 1 / 1000000" using q(2) e w(2) by argo
  ultimately show ?thesis by blast
qed

lemma branch_minus:
  assumes "\<bar>c\<bar> \<le> 3" "\<bar>x\<bar> \<le> 256"
  shows "\<exists>w. (Val c - Val x / MAX_RGB32) / Val 3 = Val w \<and>
             \<bar>w - (c - x / 255) / 3\<bar> \<le> 1 / 1000000"
proof -
  obtain q where q: "Val x / MAX_RGB32 = Val q" "\<bar>q - x / 255\<bar> \<le> 1 / 4000000" "\<bar>q\<bar> \<le> 2"
    using assms(2) by (rule quot32)
  define y where "y = rnd (c - q)"
  have b: "\<bar>c - q\<bar> \<le> 5" using assms(1) q(3) by argo
  have e: "\<bar>y - (c - q)\<bar> \<le> 5 / 16777216"
    unfolding y_def using b by (intro rnd_bound) simp_all
  have vy: "Val c - Val q = Val y"
    unfolding y_def using b by (intro sub32) simp
  have "\<bar>y\<bar> \<le> 6" using e b by argo
  then obtain w where w: "Val y / Val 3 = Val w" "\<bar>w - y / 3\<bar> \<le> 1 / 4000000"
    by (rule third32)
  have "(Val c - Val x / MAX_RGB32) / Val 3 = Val w" by (simp only: q(1) vy w(1))
  moreover have "\<bar>w - (c - x / 255) / 3\<bar> \<le> 1 / 1000000" using q(2) e w(2) by argo
  ultimately show ?thesis by blast
qed

lemma hue_of32_val:
  assumes "\<bar>r\<bar> \<le> 256" "\<bar>g\<bar> \<le> 256" "\<bar>b\<bar> \<le> 256"
  shows "\<exists>w. hue_of32 (Val h0) (Val r) (Val g) (Val b) = Val w \<and>
             \<bar>w - hue_of h0 r g b\<bar> \<le> 1 / 1000000"
proof -
  consider (b1) "b \<ge> max g r" "g > r"
    | (b2) "b \<ge> max g r" "\<not> g > r"
    | (g1) "\<not> b \<ge> max g r" "g \<ge> max r b" "r > b"
    | (g2) "\<not> b \<ge> max g r" "g \<ge> max r b" "\<not> r > b"
    | (r1) "\<not> b \<ge> max g r" "\<not> g \<ge> max r b" "r \<ge> max g b" "b > g"
    | (r2) "\<not> b \<ge> max g r" "\<not> g \<ge> max r b" "r \<ge> max g b" "\<not> b > g"
    by linarith
  then show ?thesis
  proof cases
    case b1
    have L: "hue_of32 (Val h0) (Val r) (Val g) (Val b) = (Val 2 + Val b / MAX_RGB32) / Val 3"
      by (simp only: hue_of32_def Let_def max32_Val le32 less32 b1 if_True if_False)
    have R: "hue_of h0 r g b = (2 + b / 255) / 3"
      by (simp only: hue_of_def Let_def MAX_RGB_def b1 if_True if_False)
    show ?thesis unfolding L R by (rule branch_plus) (use assms in simp_all)
  next
    case b2
    have L: "hue_of32 (Val h0) (Val r) (Val g) (Val b) = (Val 0 + Val r / MAX_RGB32) / Val 3"
      by (simp only: hue_of32_def Let_def max32_Val le32 less32 b2 if_True if_False)
    have R: "hue_of h0 r g b = (0 + r / 255) / 3"
      by (simp only: hue_of_def Let_def MAX_RGB_def b2 if_True if_False)
    show ?thesis unfolding L R by (rule branch_plus) (use assms in simp_all)
  next
    case g1
    have L: "hue_of32 (Val h0) (Val r) (Val g) (Val b) = (Val 1 + Val g / MAX_RGB32) / Val 3"
      by (simp only: hue_of32_def Let_def max32_Val le32 less32 g1 if_True if_False)
    have R: "hue_of h0 r g b = (1 + g / 255) / 3"
      by (simp only: hue_of_def Let_def MAX_RGB_def g1 if_True if_False)
    show ?thesis unfolding L R by (rule branch_plus) (use assms in simp_all)
  next
    case g2
    have L: "hue_of32 (Val h0) (Val r) (Val g) (Val b) = (Val 3 - Val g / MAX_RGB32) / Val 3"
      by (simp only: hue_of32_def Let_def max32_Val le32 less32 g2 if_True if_False)
    have R: "hue_of h0 r g b = (3 - g / 255) / 3"
      by (simp only: hue_of_def Let_def MAX_RGB_def g2 if_True if_False)
    show ?thesis unfolding L R by (rule branch_minus) (use assms in simp_all)
  next
    case r1
    have L: "hue_of32 (Val h0) (Val r) (Val g) (Val b) = Val r / MAX_RGB32 / Val 3"
      by (simp only: hue_of32_def Let_def max32_Val le32 less32 r1 if_True if_False)
    have R: "hue_of h0 r g b = r / 255 / 3"
      by (simp only: hue_of_def Let_def MAX_RGB_def r1 if_True if_False)
    show ?thesis unfolding L R by (rule branch_plain) (use assms in simp_all)
  next
    case r2
    have L: "hue_of32 (Val h0) (Val r) (Val g) (Val b) = (Val 2 - Val r / MAX_RGB32) / Val 3"
      by (simp only: hue_of32_def Let_def max32_Val le32 less32 r2 if_True if_False)
    have R: "hue_of h0 r g b = (2 - r / 255) / 3"
      by (simp only: hue_of_def Let_def MAX_RGB_def r2 if_True if_False)
    show ?thesis unfolding L R by (rule branch_minus) (use assms in simp_all)
  qed
qed

lemma desaturate_le_255:
  assumes "0 \<le> s" "s \<le> 1" "x \<le> 255"
  shows "desaturate s x \<le> 255"
proof -
  have "desaturate s x \<le> desaturate s 255" using assms(1,3) by (rule desaturate_mono)
  also have "\<dots> = 85 + 170 * s" by (simp add: desaturate_def MAX_RGB_def field_simps)
  also have "\<dots> \<le> 255" using assms(2) by simp
  finally show ?thesis .
qed

lemma RGBtoHSB_f32_val:
  assumes s: "1 / 100 < s" "s \<le> 1" and H: "0 \<le> H" "H \<le> 3"
    and d: "\<bar>dr - desaturate s (red_ramp H)\<bar> \<le> 1 / 5000"
      "\<bar>dg - desaturate s (green_ramp H)\<bar> \<le> 1 / 5000"
      "\<bar>db - desaturate s (blue_ramp H)\<bar> \<le> 1 / 5000"
    and b: "1 / 100 < b'" "b' \<le> 102 / 100" "\<bar>K - 3 * b'\<bar> \<le> 3 * b' / 16777216"
    and x: "\<bar>xr - dr * K\<bar> \<le> K / 65536" "\<bar>xg - dg * K\<bar> \<le> K / 65536"
      "\<bar>xb - db * K\<bar> \<le> K / 65536"
  obtains h'' s'' b'' where
    "RGBtoHSB_f32 (Val h0) (Val s0) (Val v0) (Val xr) (Val xg) (Val xb) = (Val h'', Val s'', Val b'')"
    "\<bar>3 * h'' - H\<bar> \<le> 1 / 40 \<or> 3 - 1 / 40 \<le> \<bar>3 * h'' - H\<bar>"
    "\<bar>s'' - s\<bar> \<le> 1 / 50000" "\<bar>b'' - b'\<bar> \<le> b' / 10000"
proof -
  define Rr where "Rr = red_ramp H"
  define Rg where "Rg = green_ramp H"
  define Rb where "Rb = blue_ramp H"
  define Dr where "Dr = desaturate s Rr"
  define Dg where "Dg = desaturate s Rg"
  define Db where "Db = desaturate s Rb"
  have s0: "0 \<le> s" using s(1) by simp
  have R: "0 \<le> Rr" "Rr \<le> 255" "0 \<le> Rg" "Rg \<le> 255" "0 \<le> Rb" "Rb \<le> 255"
    unfolding Rr_def Rg_def Rb_def
    using red_ramp_bounds [of H] green_ramp_bounds [of H] blue_ramp_bounds [of H] by simp_all
  have floor: "Rr = 0 \<or> Rg = 0 \<or> Rb = 0"
    unfolding Rr_def Rg_def Rb_def by (rule ramp_floor)
  have Rmin: "min Rr (min Rg Rb) = 0"
    unfolding Rr_def Rg_def Rb_def by (rule ramp_min)
  have D0: "0 \<le> Dr" "0 \<le> Dg" "0 \<le> Db"
    unfolding Dr_def Dg_def Db_def using s0 s(2) R by (simp_all add: desaturate_nonneg)
  have D1: "Dr \<le> 255" "Dg \<le> 255" "Db \<le> 255"
    unfolding Dr_def Dg_def Db_def using s0 s(2) R by (simp_all add: desaturate_le_255)
  have Dsum: "Dr + Dg + Db = 255"
    unfolding Dr_def Dg_def Db_def Rr_def Rg_def Rb_def by (intro desaturate_sum ramp_sum H)
  note d' = d [folded Rr_def Rg_def Rb_def, folded Dr_def Dg_def Db_def]
  have K: "3 / 200 \<le> K" "K \<le> 4" using b by argo+
  have b0: "0 < b'" using b(1) by simp
  obtain S where S: "Val xr + Val xg + Val xb = Val S" "\<bar>S - 255 * K\<bar> \<le> K / 1000"
    using K x d' D0 Dsum by (rule sum32_val)
  obtain v where v: "Val S / MAX_RGB32 / Val 3 = Val v" "\<bar>v - b'\<bar> \<le> b' / 10000" "0 < v"
    using K S(2) b0 b(3) by (rule mean32_val)
  obtain k where k: "MAX_RGB32 / Val S = Val k" "0 \<le> k" "\<bar>K * k - 1\<bar> \<le> 1 / 200000"
    using K S(2) by (rule inverse_sum32_val)
  obtain nr where nr: "Val xr * Val k = Val nr" "\<bar>nr - Dr\<bar> \<le> 1 / 600"
    using K S(2) k(2,3) x(1) d'(1) D0(1) D1(1) by (rule normalised32_val)
  obtain ng where ng: "Val xg * Val k = Val ng" "\<bar>ng - Dg\<bar> \<le> 1 / 600"
    using K S(2) k(2,3) x(2) d'(2) D0(2) D1(2) by (rule normalised32_val)
  obtain nb where nb: "Val xb * Val k = Val nb" "\<bar>nb - Db\<bar> \<le> 1 / 600"
    using K S(2) k(2,3) x(3) d'(3) D0(3) D1(3) by (rule normalised32_val)
  have Spos: "0 < S" using S(2) K by argo
  have N: "normalise32 (Val xr) (Val xg) (Val xb) = (Val nr, Val ng, Val nb)"
    by (simp only: normalise32_def Let_def S(1) less32 Spos if_True k(1) nr(1) ng(1) nb(1))
  note n = nr(2) [unfolded Dr_def] ng(2) [unfolded Dg_def] nb(2) [unfolded Db_def]
  obtain \<sigma> where \<sigma>: "sat_of32 (Val nr) (Val ng) (Val nb) = Val \<sigma>" "\<bar>\<sigma> - s\<bar> \<le> 1 / 50000"
    using s0 s(2) n Rmin by (rule sat_of32_val)
  obtain mr mg mb where m:
    "resaturate32 (Val \<sigma>) (Val nr) (Val ng) (Val nb) = (Val mr, Val mg, Val mb)"
    "\<bar>mr - Rr\<bar> \<le> 13 / 25" "\<bar>mg - Rg\<bar> \<le> 13 / 25" "\<bar>mb - Rb\<bar> \<le> 13 / 25"
    using s \<sigma>(2) n R floor by (rule resaturate32_val)
  have bm: "\<bar>mr\<bar> \<le> 256" "\<bar>mg\<bar> \<le> 256" "\<bar>mb\<bar> \<le> 256"
    using m(2,3,4) R by argo+
  obtain w where w: "hue_of32 (Val h0) (Val mr) (Val mg) (Val mb) = Val w"
    "\<bar>w - hue_of h0 mr mg mb\<bar> \<le> 1 / 1000000"
    using hue_of32_val [OF bm] by blast
  have \<sigma>pos: "0 < \<sigma>" using \<sigma>(2) s(1) by argo
  have "RGBtoHSB_f32 (Val h0) (Val s0) (Val v0) (Val xr) (Val xg) (Val xb) = (Val w, Val \<sigma>, Val v)"
    by (simp only: RGBtoHSB_f32_stages Let_def S(1) v(1) N prod.case \<sigma>(1) m(1) less32 \<sigma>pos v(3)
        simp_thms if_True w(1))
  moreover have "\<bar>3 * w - H\<bar> \<le> 1 / 40 \<or> 3 - 1 / 40 \<le> \<bar>3 * w - H\<bar>"
    using hue_of_near [OF H m(2,3,4) [unfolded Rr_def Rg_def Rb_def], of h0] w(2) by argo
  ultimately show ?thesis using \<sigma>(2) v(2) by (rule that)
qed

subsection \<open>The round trip in binary32\<close>

text \<open>
  Claim C1, for the arithmetic of the sketch: for every hue \<open>h\<close> in \<open>[0, 1)\<close>, saturation
  \<open>s\<close> with \<open>0.01 < s \<le> 1\<close> and brightness \<open>b > 0.01\<close>, \<^verbatim>\<open>HSBtoRGB\<close> followed by
  \<^verbatim>\<open>RGBtoHSB\<close> returns finite values: a hue \<open>h'\<close> within 1/100 of \<open>h\<close> on the hue circle
  (\<open>\<bar>h' - h\<bar>\<close> is at most 1/100 or at least 1 - 1/100), a saturation within 1/100 of \<open>s\<close>
  relative to \<open>s\<close>, and a brightness within 1/100, relative, of the brightness \<open>v\<close> that
  \<^verbatim>\<open>HSBtoRGB\<close> wrote back to \<^verbatim>\<open>bright\<close>. That \<open>v\<close> is never above \<open>b\<close>, and it is \<open>b\<close>
  whenever \<open>b \<le> 0.33\<close>. The values that the three variables held before the second call
  do not matter.
\<close>

theorem roundtrip32_within_tolerance:
  assumes "0 \<le> h" "h < 1" "1 / 100 < s" "s \<le> 1" "1 / 100 < b"
  shows "\<exists>h' s' b' v r g bl.
           HSBtoRGB_f32 (Val h) (Val s) (Val b) = (Val v, Val r, Val g, Val bl) \<and>
           roundtrip32 (Val h) (Val s) (Val b) = (Val h', Val s', Val b') \<and>
           (\<bar>h' - h\<bar> \<le> 1 / 100 \<or> 1 - 1 / 100 \<le> \<bar>h' - h\<bar>) \<and>
           \<bar>s' - s\<bar> \<le> 1 / 100 * \<bar>s\<bar> \<and>
           \<bar>b' - v\<bar> \<le> 1 / 100 * \<bar>v\<bar> \<and> v \<le> b \<and> (b \<le> 33 / 100 \<longrightarrow> v = b)"
proof -
  have s0: "0 \<le> s" using assms(3) by simp
  obtain H v K dr dg db xr xg xb where f:
    "HSBtoRGB_f32 (Val h) (Val s) (Val b) = (Val v, Val xr, Val xg, Val xb)"
    "0 \<le> H" "H \<le> 3" "\<bar>H - 3 * h\<bar> \<le> 3 / 16777216"
    "\<bar>dr - desaturate s (red_ramp H)\<bar> \<le> 1 / 5000"
    "\<bar>dg - desaturate s (green_ramp H)\<bar> \<le> 1 / 5000"
    "\<bar>db - desaturate s (blue_ramp H)\<bar> \<le> 1 / 5000"
    "1 / 100 < v" "v \<le> b" "v \<le> 102 / 100" "b \<le> 33 / 100 \<longrightarrow> v = b"
    "\<bar>K - 3 * v\<bar> \<le> 3 * v / 16777216"
    "\<bar>xr - dr * K\<bar> \<le> K / 65536" "\<bar>xg - dg * K\<bar> \<le> K / 65536"
    "\<bar>xb - db * K\<bar> \<le> K / 65536"
    using assms(1,2) s0 assms(4,5) by (rule HSBtoRGB_f32_val)
  obtain h' s' b' where g:
    "RGBtoHSB_f32 (Val h) (Val s) (Val v) (Val xr) (Val xg) (Val xb) = (Val h', Val s', Val b')"
    "\<bar>3 * h' - H\<bar> \<le> 1 / 40 \<or> 3 - 1 / 40 \<le> \<bar>3 * h' - H\<bar>"
    "\<bar>s' - s\<bar> \<le> 1 / 50000" "\<bar>b' - v\<bar> \<le> v / 10000"
    using assms(3,4) f(2,3,5,6,7,8,10,12,13,14,15) by (rule RGBtoHSB_f32_val)
  have rt: "roundtrip32 (Val h) (Val s) (Val b) = (Val h', Val s', Val b')"
    by (simp only: roundtrip32_def f(1) prod.case g(1))
  have hue: "\<bar>h' - h\<bar> \<le> 1 / 100 \<or> 1 - 1 / 100 \<le> \<bar>h' - h\<bar>"
    using g(2) f(4) by argo
  have sat: "\<bar>s' - s\<bar> \<le> 1 / 100 * \<bar>s\<bar>" using g(3) assms(3) by argo
  have bright: "\<bar>b' - v\<bar> \<le> 1 / 100 * \<bar>v\<bar>" using g(4) f(8) by argo
  show ?thesis using f(1) rt hue sat bright f(9,11) by blast
qed

lemma HSBtoRGB_f32_quarter:
  "HSBtoRGB_f32 (Val (1 / 4)) (Val (1 / 2)) (Val (1 / 4)) =
     (Val (1 / 4), Val (3315 / 32), Val (255 / 8), Val (1785 / 32))"
  by (simp add: HSBtoRGB_f32_def f32_eval cong: let_weak_cong prod.case_cong_weak)

lemma RGBtoHSB_f32_quarter:
  "RGBtoHSB_f32 (Val (1 / 4)) (Val (1 / 2)) (Val (1 / 4))
      (Val (3315 / 32)) (Val (255 / 8)) (Val (1785 / 32)) =
     (Val (1 / 4), Val (1 / 2), Val (1 / 4))"
  by (simp add: RGBtoHSB_f32_def f32_eval cong: let_weak_cong prod.case_cong_weak)

theorem roundtrip32_within_tolerance_witness:
  "(0 :: real) \<le> 1 / 4 \<and> (1 / 4 :: real) < 1 \<and> (1 / 100 :: real) < 1 / 2 \<and>
   (1 / 2 :: real) \<le> 1 \<and> (1 / 100 :: real) < 1 / 4 \<and>
   HSBtoRGB_f32 (Val (1 / 4)) (Val (1 / 2)) (Val (1 / 4)) =
     (Val (1 / 4), Val (3315 / 32), Val (255 / 8), Val (1785 / 32)) \<and>
   roundtrip32 (Val (1 / 4)) (Val (1 / 2)) (Val (1 / 4)) =
     (Val (1 / 4), Val (1 / 2), Val (1 / 4)) \<and>
   (\<exists>h' s' b' v r g bl.
      HSBtoRGB_f32 (Val (1 / 4)) (Val (1 / 2)) (Val (1 / 4)) = (Val v, Val r, Val g, Val bl) \<and>
      roundtrip32 (Val (1 / 4)) (Val (1 / 2)) (Val (1 / 4)) = (Val h', Val s', Val b') \<and>
      (\<bar>h' - 1 / 4\<bar> \<le> 1 / 100 \<or> 1 - 1 / 100 \<le> \<bar>h' - 1 / 4\<bar>) \<and>
      \<bar>s' - 1 / 2\<bar> \<le> 1 / 100 * \<bar>1 / 2\<bar> \<and>
      \<bar>b' - v\<bar> \<le> 1 / 100 * \<bar>v\<bar> \<and> v \<le> 1 / 4 \<and> ((1 / 4 :: real) \<le> 33 / 100 \<longrightarrow> v = 1 / 4))"
proof -
  have "roundtrip32 (Val (1 / 4)) (Val (1 / 2)) (Val (1 / 4)) =
          (Val (1 / 4), Val (1 / 2), Val (1 / 4))"
    by (simp only: roundtrip32_def HSBtoRGB_f32_quarter prod.case RGBtoHSB_f32_quarter)
  moreover have "(0 :: real) \<le> 1 / 4" "(1 / 4 :: real) < 1" "(1 / 100 :: real) < 1 / 2"
    "(1 / 2 :: real) \<le> 1" "(1 / 100 :: real) < 1 / 4"
    by simp_all
  moreover note roundtrip32_within_tolerance [of "1 / 4" "1 / 2" "1 / 4"] HSBtoRGB_f32_quarter
  ultimately show ?thesis by blast
qed

text \<open>
  Claim C1 as stated fails in three ways. It compares the brightness read back with the
  brightness given: at hue 0, saturation 1 and brightness 1 (the colour \<^verbatim>\<open>setup()\<close> asks
  for) \<^verbatim>\<open>HSBtoRGB\<close> caps the brightness, and the round trip returns 0.3333. It measures the
  hue relative to the hue given: at hue 0, saturation 0.010000001 and brightness 1/2 the
  round trip returns the hue \<open>1 + 25 / 2 ^ 23\<close>, the other end of the range. And it bounds
  the saturation only from below: at hue 1/4, saturation \<open>2 ^ 20\<close> and brightness 1/4 the
  round trip returns the saturation 1009006.375.
\<close>

lemma roundtrip32_capped:
  "roundtrip32 (Val 0) (Val 1) (Val 1) = (Val 0, Val 1, Val (11184811 / 33554432))"
  by (simp add: roundtrip32_def HSBtoRGB_f32_def RGBtoHSB_f32_def f32_eval
      cong: let_weak_cong prod.case_cong_weak)

lemma roundtrip32_wrapped:
  "roundtrip32 (Val 0) (Val (10737419 / 1073741824)) (Val (1 / 2)) =
     (Val (8388633 / 8388608), Val (10737303 / 1073741824), Val (1 / 2))"
  by (simp add: roundtrip32_def HSBtoRGB_f32_def RGBtoHSB_f32_def f32_eval
      cong: let_weak_cong prod.case_cong_weak)

lemma roundtrip32_oversaturated:
  "roundtrip32 (Val (1 / 4)) (Val 1048576) (Val (1 / 4)) =
     (Val (1 / 4), Val (8072051 / 8), Val (13948117 / 17592186044416))"
  by (simp add: roundtrip32_def HSBtoRGB_f32_def RGBtoHSB_f32_def f32_eval
      cong: let_weak_cong prod.case_cong_weak)

theorem roundtrip32_counterexample:
  "roundtrip32 (Val 0) (Val 1) (Val 1) = (Val 0, Val 1, Val (11184811 / 33554432)) \<and>
   \<not> \<bar>11184811 / 33554432 - 1\<bar> \<le> 1 / 100 * \<bar>1 :: real\<bar> \<and>
   roundtrip32 (Val 0) (Val (10737419 / 1073741824)) (Val (1 / 2)) =
     (Val (8388633 / 8388608), Val (10737303 / 1073741824), Val (1 / 2)) \<and>
   (1 / 100 :: real) < 10737419 / 1073741824 \<and>
   \<not> \<bar>8388633 / 8388608 - 0\<bar> \<le> 1 / 100 * \<bar>0 :: real\<bar> \<and>
   \<not> \<bar>8388633 / 8388608 - 0\<bar> \<le> (1 / 100 :: real) \<and>
   roundtrip32 (Val (1 / 4)) (Val 1048576) (Val (1 / 4)) =
     (Val (1 / 4), Val (8072051 / 8), Val (13948117 / 17592186044416)) \<and>
   \<not> \<bar>8072051 / 8 - 1048576\<bar> \<le> 1 / 100 * \<bar>1048576 :: real\<bar>"
  unfolding roundtrip32_capped roundtrip32_wrapped roundtrip32_oversaturated
  by simp

end
